theory Spec2Isabelle
  imports Main
begin

section \<open>Data model\<close>

text \<open>
  Identifiers are UUIDs in the source; only equality on them is ever used (a UUID object is
  always truthy, so \<open>while current.parent_token_id\<close> and \<open>if except_token_id\<close> are tests
  against \<open>None\<close>). They are modelled as natural numbers. Instants are timezone-aware
  datetimes of microsecond resolution, modelled as the integer number of microseconds since
  the epoch; a \<open>timedelta\<close> is an integer number of microseconds.
\<close>

type_synonym uuid = nat
type_synonym instant = int
type_synonym timedelta = int

text \<open>
  \<open>src/modules/auth/models/refresh_token.py\<close>, class \<open>RefreshToken\<close>. The column \<open>id\<close> is
  named \<open>id'\<close> here. The bookkeeping columns \<open>created_at\<close> and \<open>updated_at\<close> of \<open>Base\<close> are
  maintained by the database server and never read by the token lifecycle; they are left out.
\<close>

record RefreshToken =
  id' :: uuid
  user_id :: uuid
  token_hash :: string
  device_id :: "string option"
  device_name :: "string option"
  user_agent :: "string option"
  ip_address :: "string option"
  expires_at :: instant
  is_revoked :: bool
  revoked_at :: "instant option"
  replaced_by_id :: "uuid option"
  parent_token_id :: "uuid option"

text \<open>The table \<open>refresh_tokens\<close>: its rows, in insertion order.\<close>

type_synonym ledger = "RefreshToken list"

text \<open>
  The schema's constraints on the table: \<open>id\<close> is the primary key and \<open>token_hash\<close> is
  declared \<open>unique=True\<close>.
\<close>

definition ledger_ok :: "ledger \<Rightarrow> bool" where
  "ledger_ok L \<longleftrightarrow> distinct (map id' L) \<and> distinct (map token_hash L)"

datatype error =
    AuthenticationError string
  | AuthorizationError string
  | NotFoundError string
  | IntegrityError
  | DataError

section \<open>SQL statements\<close>

text \<open>
  \<open>UPDATE t SET ... WHERE c\<close> and \<open>DELETE FROM t WHERE c\<close>, each returning the statement's
  \<open>rowcount\<close> (the number of rows matched) and the table afterwards.
\<close>

definition sql_update :: "(RefreshToken \<Rightarrow> bool) \<Rightarrow> (RefreshToken \<Rightarrow> RefreshToken) \<Rightarrow> ledger \<Rightarrow> nat \<times> ledger" where
  "sql_update c f L = (length (filter c L), map (\<lambda>r. if c r then f r else r) L)"

definition sql_delete :: "(RefreshToken \<Rightarrow> bool) \<Rightarrow> ledger \<Rightarrow> nat \<times> ledger" where
  "sql_delete c L = (length (filter c L), filter (\<lambda>r. \<not> c r) L)"

section \<open>The token ledger: \<open>RefreshTokenRepository\<close>\<close>

text \<open>\<open>BaseRepository.get\<close>: lookup by primary key.\<close>

definition get :: "ledger \<Rightarrow> uuid \<Rightarrow> RefreshToken option" where
  "get L i = find (\<lambda>r. id' r = i) L"

text \<open>
  Storing a value into a \<open>String(n)\<close> column, \<open>character varying(n)\<close> of the configured
  PostgreSQL database: a longer string is an error, unless the characters beyond the
  \<open>n\<close>-th are all spaces, in which case it is cut to \<open>n\<close> characters. \<open>None\<close> is the
  error; a \<open>NULL\<close> is stored as it is.
\<close>

definition varchar :: "nat \<Rightarrow> string option \<Rightarrow> string option option" where
  "varchar n v =
     (case v of
        None \<Rightarrow> Some None
      | Some s \<Rightarrow>
          if length s \<le> n then Some (Some s)
          else if list_all (\<lambda>c. c = CHR '' '') (drop n s) then Some (Some (take n s))
          else None)"

text \<open>
  \<open>create_token\<close> followed by \<open>BaseRepository.create\<close>. The new row's \<open>id\<close> is the column
  default \<open>uuid.uuid4()\<close>, passed in here as \<open>new_id\<close>; \<open>is_revoked\<close> takes its default
  \<open>False\<close> and the nullable columns not given are \<open>None\<close>. The commit raises, and nothing
  is inserted, when \<open>device_id\<close> or \<open>device_name\<close> does not fit \<open>String(255)\<close>,
  \<open>user_agent\<close> \<open>String(500)\<close> or \<open>ip_address\<close> \<open>String(45)\<close> (a data error), and when the
  primary key or the unique \<open>token_hash\<close> is already present (an integrity error). The
  object returned has been refreshed from the row, so it carries the stored values.
  \<open>token_hash\<close> is the hexadecimal SHA-256 digest, 64 characters, the width of its
  column. The foreign key from \<open>user_id\<close> to the users table lies outside the ledger: the
  callers pass the id of a user they have loaded.
\<close>

definition create_token ::
  "instant \<Rightarrow> uuid \<Rightarrow> uuid \<Rightarrow> string \<Rightarrow> string option \<Rightarrow> string option \<Rightarrow> string option \<Rightarrow>
   string option \<Rightarrow> timedelta \<Rightarrow> uuid option \<Rightarrow> ledger \<Rightarrow> error + (RefreshToken \<times> ledger)" where
  "create_token now new_id uid th dev_id dev_name ua ip expires_delta parent L =
     (case varchar 255 dev_id of
        None \<Rightarrow> Inl DataError
      | Some stored_dev_id \<Rightarrow>
     (case varchar 255 dev_name of
        None \<Rightarrow> Inl DataError
      | Some stored_dev_name \<Rightarrow>
     (case varchar 500 ua of
        None \<Rightarrow> Inl DataError
      | Some stored_ua \<Rightarrow>
     (case varchar 45 ip of
        None \<Rightarrow> Inl DataError
      | Some stored_ip \<Rightarrow>
          (let token = \<lparr> id' = new_id, user_id = uid, token_hash = th,
                         device_id = stored_dev_id, device_name = stored_dev_name,
                         user_agent = stored_ua, ip_address = stored_ip,
                         expires_at = now + expires_delta, is_revoked = False,
                         revoked_at = None, replaced_by_id = None, parent_token_id = parent \<rparr>
           in if new_id \<in> set (map id' L) \<or> th \<in> set (map token_hash L) then Inl IntegrityError
              else Inr (token, L @ [token]))))))"

text \<open>
  \<open>get_by_token_hash\<close>. \<open>scalar_one_or_none\<close> returns the row when there is exactly one;
  the unique constraint on \<open>token_hash\<close> (see \<open>ledger_ok\<close>) rules out several.
\<close>

definition get_by_token_hash :: "ledger \<Rightarrow> string \<Rightarrow> RefreshToken option" where
  "get_by_token_hash L th = find (\<lambda>r. token_hash r = th) L"

text \<open>\<open>get_user_tokens\<close>; \<open>if device_id\<close> is false for \<open>None\<close> and for the empty string.\<close>

definition get_user_tokens :: "ledger \<Rightarrow> uuid \<Rightarrow> string option \<Rightarrow> bool \<Rightarrow> RefreshToken list" where
  "get_user_tokens L uid dev include_revoked =
     filter (\<lambda>r. user_id r = uid
                \<and> (case dev of None \<Rightarrow> True | Some d \<Rightarrow> d = [] \<or> device_id r = Some d)
                \<and> (include_revoked \<or> \<not> is_revoked r)) L"

text \<open>\<open>revoke_token\<close>: an update keyed on the id alone; true iff a row was matched.\<close>

definition revoke_token :: "instant \<Rightarrow> uuid \<Rightarrow> uuid option \<Rightarrow> ledger \<Rightarrow> bool \<times> ledger" where
  "revoke_token now token_id replaced_by L =
     (let (rowcount, L') =
            sql_update (\<lambda>r. id' r = token_id)
              (\<lambda>r. r\<lparr> is_revoked := True, revoked_at := Some now, replaced_by_id := replaced_by \<rparr>) L
      in (rowcount > 0, L'))"

text \<open>
  The loop of \<open>revoke_token_chain\<close>: from \<open>current\<close>, follow \<open>parent_token_id\<close> while the
  parent is found, collecting the parents' ids. On a cyclic chain the loop does not end; the
  value is then \<open>None\<close>.
\<close>

partial_function (option) walk_chain :: "ledger \<Rightarrow> RefreshToken \<Rightarrow> uuid list \<Rightarrow> uuid list option" where
  "walk_chain L current chain_tokens =
     (case parent_token_id current of
        None \<Rightarrow> Some chain_tokens
      | Some p \<Rightarrow>
          (case get L p of
             Some parent \<Rightarrow> walk_chain L parent (chain_tokens @ [id' parent])
           | None \<Rightarrow> Some chain_tokens))"

definition revoke_token_chain :: "instant \<Rightarrow> uuid \<Rightarrow> ledger \<Rightarrow> (nat \<times> ledger) option" where
  "revoke_token_chain now token_id L =
     (case get L token_id of
        None \<Rightarrow> Some (0, L)
      | Some token \<Rightarrow>
          (case walk_chain L token [] of
             None \<Rightarrow> None
           | Some chain_tokens \<Rightarrow>
               if chain_tokens \<noteq> [] then
                 Some (sql_update (\<lambda>r. id' r \<in> set chain_tokens)
                         (\<lambda>r. r\<lparr> is_revoked := True, revoked_at := Some now \<rparr>) L)
               else Some (0, L)))"

definition revoke_all_user_tokens :: "instant \<Rightarrow> uuid \<Rightarrow> uuid option \<Rightarrow> ledger \<Rightarrow> nat \<times> ledger" where
  "revoke_all_user_tokens now uid except_token_id L =
     sql_update
       (\<lambda>r. user_id r = uid \<and> is_revoked r = False
             \<and> (case except_token_id of None \<Rightarrow> True | Some e \<Rightarrow> id' r \<noteq> e))
       (\<lambda>r. r\<lparr> is_revoked := True, revoked_at := Some now \<rparr>) L"

text \<open>
  \<open>revoke_device_tokens\<close>; \<open>device_id\<close> is a \<open>str\<close> here, and SQL equality with it never
  matches a row whose \<open>device_id\<close> is \<open>NULL\<close>.
\<close>

definition revoke_device_tokens :: "instant \<Rightarrow> uuid \<Rightarrow> string \<Rightarrow> ledger \<Rightarrow> nat \<times> ledger" where
  "revoke_device_tokens now uid dev L =
     sql_update
       (\<lambda>r. user_id r = uid \<and> device_id r = Some dev \<and> is_revoked r = False)
       (\<lambda>r. r\<lparr> is_revoked := True, revoked_at := Some now \<rparr>) L"

definition cleanup_expired_tokens :: "instant \<Rightarrow> ledger \<Rightarrow> nat \<times> ledger" where
  "cleanup_expired_tokens now L = sql_delete (\<lambda>r. expires_at r < now) L"

definition is_token_valid :: "instant \<Rightarrow> ledger \<Rightarrow> string \<Rightarrow> bool" where
  "is_token_valid now L th =
     (case get_by_token_hash L th of
        None \<Rightarrow> False
      | Some token \<Rightarrow>
          if is_revoked token then False
          else \<not> expires_at token < now)"

text \<open>
  \<open>BaseRepository.update\<close> as the rotation calls it, with the dictionary
  \<open>{"parent_token_id": pid}\<close>: the attribute is set on the loaded object and the commit
  writes it to the row of that primary key.
\<close>

definition update_parent_token_id :: "ledger \<Rightarrow> RefreshToken \<Rightarrow> uuid \<Rightarrow> ledger" where
  "update_parent_token_id L db_obj pid =
     map (\<lambda>r. if id' r = id' db_obj then r\<lparr> parent_token_id := Some pid \<rparr> else r) L"

section \<open>The token cache: \<open>RedisService\<close>\<close>

text \<open>
  The JSON value stored under \<open>refresh_token:{hash}\<close>, and a Redis entry: the value, the
  expiry \<open>ex\<close> in whole seconds and the instant of the write. Redis drops the entry once
  \<open>ex\<close> seconds have passed.
\<close>

record cached_token =
  c_user_id :: uuid
  c_device_id :: "string option"
  c_expires_at :: instant

record cache_entry =
  c_value :: cached_token
  c_ex :: int
  c_set_at :: instant

type_synonym cache = "string \<rightharpoonup> cache_entry"

definition token_key :: "string \<Rightarrow> string" where
  "token_key th = ''refresh_token:'' @ th"

text \<open>
  \<open>int(delta.total_seconds())\<close>. \<open>total_seconds\<close> divides the whole number of
  microseconds by \<open>10**6\<close>; this is Python's true division of two integers, whose result
  is the double nearest to the exact quotient (ties to the even mantissa), and \<open>int\<close>
  drops the fraction, toward zero.

  \<open>log2_floor n\<close> is the position of the leading bit of \<open>n\<close>, \<open>round_half_even a b\<close> the
  integer nearest to \<open>a / b\<close>. For \<open>n \<ge> b > 0\<close>, with \<open>2 ^ e \<le> n / b < 2 ^ (e + 1)\<close>, the
  double nearest to \<open>n / b\<close> is \<open>m * 2 ^ (e - 52)\<close> where \<open>m\<close> is \<open>n / b * 2 ^ (52 - e)\<close>
  rounded to an integer (the 53-bit mantissa); \<open>int_of_true_div n b\<close> is its integer part.
  A quotient below 1 (fewer than \<open>10**6\<close> microseconds) is at most 0.999999, and so is
  its double: the integer part is 0. Negative durations mirror the positive ones. (A
  \<open>timedelta\<close> holds fewer than \<open>10**9\<close> days, so the quotient is far inside the range of
  the doubles.)
\<close>

fun log2_floor :: "nat \<Rightarrow> nat" where
  "log2_floor n = (if n < 2 then 0 else Suc (log2_floor (n div 2)))"

declare log2_floor.simps [simp del]

definition round_half_even :: "int \<Rightarrow> int \<Rightarrow> int" where
  "round_half_even a b =
     (if b < 2 * (a mod b) \<or> (2 * (a mod b) = b \<and> odd (a div b)) then a div b + 1 else a div b)"

definition int_of_true_div :: "int \<Rightarrow> int \<Rightarrow> int" where
  "int_of_true_div n b =
     (let e = log2_floor (nat (n div b))
      in if e \<le> 52 then round_half_even (n * 2 ^ (52 - e)) b div 2 ^ (52 - e)
         else round_half_even n (b * 2 ^ (e - 52)) * 2 ^ (e - 52))"

definition total_seconds_int :: "timedelta \<Rightarrow> int" where
  "total_seconds_int d =
     (if 0 \<le> d then (if d < 1000000 then 0 else int_of_true_div d 1000000)
      else (if - d < 1000000 then 0 else - int_of_true_div (- d) 1000000))"

definition redis_set :: "instant \<Rightarrow> string \<Rightarrow> cached_token \<Rightarrow> int \<Rightarrow> cache \<Rightarrow> cache" where
  "redis_set now key v expire C = C(key \<mapsto> \<lparr> c_value = v, c_ex = expire, c_set_at = now \<rparr>)"

definition redis_get :: "instant \<Rightarrow> cache \<Rightarrow> string \<Rightarrow> cached_token option" where
  "redis_get now C key =
     (case C key of
        None \<Rightarrow> None
      | Some e \<Rightarrow> if now < c_set_at e + c_ex e * 1000000 then Some (c_value e) else None)"

definition cache_refresh_token ::
  "instant \<Rightarrow> string \<Rightarrow> uuid \<Rightarrow> string option \<Rightarrow> instant \<Rightarrow> cache \<Rightarrow> cache" where
  "cache_refresh_token now th uid dev expires C =
     (let key = token_key th;
          v = \<lparr> c_user_id = uid, c_device_id = dev, c_expires_at = expires \<rparr>;
          ttl = total_seconds_int (expires - now)
      in if ttl > 0 then redis_set now key v ttl C else C)"

definition get_cached_token :: "instant \<Rightarrow> cache \<Rightarrow> string \<Rightarrow> cached_token option" where
  "get_cached_token now C th = redis_get now C (token_key th)"

definition invalidate_token_cache :: "cache \<Rightarrow> string \<Rightarrow> cache" where
  "invalidate_token_cache C th = C(token_key th := None)"

section \<open>The rotation engine: \<open>AuthService\<close>\<close>

text \<open>
  The users table is only read here: \<open>users i\<close> is \<open>user_repo.get(i)\<close>. An access token
  is a signed JWT carrying \<open>sub\<close> and \<open>exp\<close>; the signature is not modelled.
\<close>

record user =
  u_id :: uuid
  u_is_active :: bool

datatype access_token = AccessToken (sub: uuid) (exp: instant)

record token_pair =
  access_token :: access_token
  refresh_token :: string
  token_type :: string

record state =
  db :: ledger
  redis :: cache

definition REFRESH_TOKEN_EXPIRE_DAYS :: int where
  "REFRESH_TOKEN_EXPIRE_DAYS = 30"

definition ACCESS_TOKEN_EXPIRE_MINUTES :: int where
  "ACCESS_TOKEN_EXPIRE_MINUTES = 60"

definition days :: "int \<Rightarrow> timedelta" where
  "days n = n * 86400 * 1000000"

definition minutes :: "int \<Rightarrow> timedelta" where
  "minutes n = n * 60 * 1000000"

text \<open>Python's \<open>a or b\<close> on \<open>str | None\<close>: \<open>None\<close> and the empty string are false.\<close>

definition py_or :: "string option \<Rightarrow> string option \<Rightarrow> string option" where
  "py_or a b = (case a of None \<Rightarrow> b | Some x \<Rightarrow> if x = [] then b else Some x)"

text \<open>
  \<open>_create_token_pair\<close>. The parameters \<open>H\<close>, \<open>now\<close>, \<open>new_id\<close> and \<open>new_secret\<close> are what
  the source takes from its environment: \<open>security_service.hash_token\<close> (SHA-256, hex),
  the clock (read once per request in the model), \<open>uuid.uuid4()\<close> and
  \<open>secrets.token_urlsafe(32)\<close>. A failed insert raises, and nothing is written.
\<close>

definition create_token_pair ::
  "(string \<Rightarrow> string) \<Rightarrow> instant \<Rightarrow> uuid \<Rightarrow> string \<Rightarrow> user \<Rightarrow> string option \<Rightarrow> string option \<Rightarrow>
   string option \<Rightarrow> string option \<Rightarrow> state \<Rightarrow> (error + token_pair) \<times> state" where
  "create_token_pair H now new_id new_secret usr dev_id dev_name ua ip s =
     (let acc = AccessToken (u_id usr) (now + minutes ACCESS_TOKEN_EXPIRE_MINUTES);
          th = H new_secret;
          expires_delta = days REFRESH_TOKEN_EXPIRE_DAYS;
          expires = now + expires_delta
      in case create_token now new_id (u_id usr) th dev_id dev_name ua ip expires_delta None (db s) of
           Inl e \<Rightarrow> (Inl e, s)
         | Inr (tok, L') \<Rightarrow>
             (Inr \<lparr> access_token = acc, refresh_token = new_secret, token_type = ''bearer'' \<rparr>,
              \<lparr> db = L', redis = cache_refresh_token now th (u_id usr) dev_id expires (redis s) \<rparr>))"

text \<open>
  \<open>refresh_access_token\<close>, lines 119 to 165: hash the secret, consult the cache, check the
  ledger, detect reuse, load the record and its user. The two branches differ only in
  that the cached one also invalidates the cache entry on reuse. \<open>None\<close> is the chain walk
  not returning.
\<close>

definition load_token_and_user ::
  "(uuid \<Rightarrow> user option) \<Rightarrow> string \<Rightarrow> state \<Rightarrow> error + (RefreshToken \<times> user)" where
  "load_token_and_user users th s =
     (case get_by_token_hash (db s) th of
        None \<Rightarrow> Inl (AuthenticationError ''Invalid refresh token.'')
      | Some db_token \<Rightarrow>
          (case users (user_id db_token) of
             None \<Rightarrow> Inl (AuthenticationError ''User not found or inactive.'')
           | Some usr \<Rightarrow>
               if \<not> u_is_active usr then Inl (AuthenticationError ''User not found or inactive.'')
               else Inr (db_token, usr)))"

definition refresh_validate ::
  "(string \<Rightarrow> string) \<Rightarrow> instant \<Rightarrow> (uuid \<Rightarrow> user option) \<Rightarrow> string \<Rightarrow> state \<Rightarrow>
   ((error + (RefreshToken \<times> user)) \<times> state) option" where
  "refresh_validate H now users secret s =
     (let th = H secret in
      case get_cached_token now (redis s) th of
        Some cached \<Rightarrow>
          if \<not> is_token_valid now (db s) th then
            (case get_by_token_hash (db s) th of
               Some db_token \<Rightarrow>
                 if is_revoked db_token then
                   (case revoke_token_chain now (id' db_token) (db s) of
                      None \<Rightarrow> None
                    | Some (n, L') \<Rightarrow>
                        Some (Inl (AuthenticationError ''Token has been revoked. Please log in again.''),
                              \<lparr> db = L', redis = invalidate_token_cache (redis s) th \<rparr>))
                 else Some (Inl (AuthenticationError ''Invalid or expired refresh token.''), s)
             | None \<Rightarrow> Some (Inl (AuthenticationError ''Invalid or expired refresh token.''), s))
          else Some (load_token_and_user users th s, s)
      | None \<Rightarrow>
          if \<not> is_token_valid now (db s) th then
            (case get_by_token_hash (db s) th of
               Some db_token \<Rightarrow>
                 if is_revoked db_token then
                   (case revoke_token_chain now (id' db_token) (db s) of
                      None \<Rightarrow> None
                    | Some (n, L') \<Rightarrow>
                        Some (Inl (AuthenticationError ''Token has been revoked. Please log in again.''),
                              s\<lparr> db := L' \<rparr>))
                 else Some (Inl (AuthenticationError ''Invalid or expired refresh token.''), s)
             | None \<Rightarrow> Some (Inl (AuthenticationError ''Invalid or expired refresh token.''), s))
          else Some (load_token_and_user users th s, s))"

text \<open>
  \<open>refresh_access_token\<close>, lines 167 to 196: mint the new pair, link the new record to
  the old one, revoke the old one (the result of \<open>revoke_token\<close> is not looked at),
  invalidate the old cache entry.
\<close>

definition refresh_issue ::
  "(string \<Rightarrow> string) \<Rightarrow> instant \<Rightarrow> uuid \<Rightarrow> string \<Rightarrow> RefreshToken \<Rightarrow> user \<Rightarrow> string \<Rightarrow>
   string option \<Rightarrow> string option \<Rightarrow> string option \<Rightarrow> string option \<Rightarrow> state \<Rightarrow> (error + token_pair) \<times> state" where
  "refresh_issue H now new_id new_secret db_token usr secret dev_id dev_name ua ip s =
     (case create_token_pair H now new_id new_secret usr
             (py_or dev_id (device_id db_token)) (py_or dev_name (device_name db_token)) ua ip s of
        (Inl e, s1) \<Rightarrow> (Inl e, s1)
      | (Inr new_tokens, s1) \<Rightarrow>
          (let new_token_hash = H (refresh_token new_tokens);
               new_db_token = get_by_token_hash (db s1) new_token_hash;
               L2 = (case new_db_token of
                       Some t \<Rightarrow> update_parent_token_id (db s1) t (id' db_token)
                     | None \<Rightarrow> db s1);
               (ok, L3) = revoke_token now (id' db_token) (map_option id' new_db_token) L2
           in (Inr \<lparr> access_token = access_token new_tokens,
                     refresh_token = refresh_token new_tokens, token_type = ''bearer'' \<rparr>,
               \<lparr> db = L3, redis = invalidate_token_cache (redis s1) (H secret) \<rparr>)))"

definition refresh_access_token ::
  "(string \<Rightarrow> string) \<Rightarrow> instant \<Rightarrow> uuid \<Rightarrow> string \<Rightarrow> (uuid \<Rightarrow> user option) \<Rightarrow> string \<Rightarrow>
   string option \<Rightarrow> string option \<Rightarrow> string option \<Rightarrow> string option \<Rightarrow> state \<Rightarrow>
   ((error + token_pair) \<times> state) option" where
  "refresh_access_token H now new_id new_secret users secret dev_id dev_name ua ip s =
     (case refresh_validate H now users secret s of
        None \<Rightarrow> None
      | Some (Inl e, s1) \<Rightarrow> Some (Inl e, s1)
      | Some (Inr (db_token, usr), s1) \<Rightarrow>
          Some (refresh_issue H now new_id new_secret db_token usr secret dev_id dev_name ua ip s1))"

text \<open>\<open>logout_device\<close>.\<close>

definition logout_device :: "(string \<Rightarrow> string) \<Rightarrow> instant \<Rightarrow> uuid \<Rightarrow> string \<Rightarrow> state \<Rightarrow> (error + unit) \<times> state" where
  "logout_device H now uid secret s =
     (let th = H secret in
      case get_by_token_hash (db s) th of
        None \<Rightarrow> (Inl (NotFoundError ''Token not found.''), s)
      | Some db_token \<Rightarrow>
          if user_id db_token \<noteq> uid then
            (Inl (AuthorizationError ''Token does not belong to this user.''), s)
          else
            (let (ok, L') = revoke_token now (id' db_token) None (db s)
             in (Inr (), \<lparr> db = L', redis = invalidate_token_cache (redis s) th \<rparr>)))"

text \<open>
  \<open>logout_all_devices\<close>, returning the count that the source puts into its message;
  \<open>if except_token\<close> is false for \<open>None\<close> and for the empty string.
\<close>

definition logout_all_devices :: "(string \<Rightarrow> string) \<Rightarrow> instant \<Rightarrow> uuid \<Rightarrow> string option \<Rightarrow> state \<Rightarrow> nat \<times> state" where
  "logout_all_devices H now uid except_token s =
     (let except_token_id =
            (case except_token of
               None \<Rightarrow> None
             | Some t \<Rightarrow>
                 if t = [] then None
                 else (case get_by_token_hash (db s) (H t) of
                         Some db_token \<Rightarrow> if user_id db_token = uid then Some (id' db_token) else None
                       | None \<Rightarrow> None));
          (revoked_count, L') = revoke_all_user_tokens now uid except_token_id (db s)
      in (revoked_count, s\<lparr> db := L' \<rparr>))"

section \<open>Chains\<close>

text \<open>
  The words of the specification about chains, to compare \<open>revoke_token_chain\<close> with.
  There is an edge from \<open>p\<close> to \<open>c\<close> when the record with id \<open>c\<close> exists, names \<open>p\<close> as
  its \<open>parent_token_id\<close>, and the lookup of \<open>p\<close> succeeds. The ancestors of a record are
  what is reached from it by following one or more edges backward; a chain has no cycle
  when the edges have none.
\<close>

definition parent_edge :: "ledger \<Rightarrow> (uuid \<times> uuid) set" where
  "parent_edge L =
     {(p, c). \<exists>r q. get L c = Some r \<and> parent_token_id r = Some p \<and> get L p = Some q}"

definition ancestors :: "ledger \<Rightarrow> uuid \<Rightarrow> uuid set" where
  "ancestors L t = {a. (a, t) \<in> (parent_edge L)\<^sup>+}"

definition mark_revoked :: "instant \<Rightarrow> RefreshToken \<Rightarrow> RefreshToken" where
  "mark_revoked now r = r\<lparr> is_revoked := True, revoked_at := Some now \<rparr>"

section \<open>Ledger operations as steps\<close>

text \<open>
  One call of the repository. \<open>OpRead\<close> stands for the reads (\<open>get\<close>,
  \<open>get_by_token_hash\<close>, \<open>get_user_tokens\<close>, \<open>is_token_valid\<close>), which only select. A
  create that raises leaves the table as it was; a chain walk that does not return gives
  \<open>None\<close>.
\<close>

datatype ledger_op =
    OpCreate uuid uuid string "string option" "string option" "string option" "string option"
      timedelta "uuid option"
  | OpRevoke uuid "uuid option"
  | OpRevokeChain uuid
  | OpRevokeAll uuid "uuid option"
  | OpRevokeDevice uuid string
  | OpSweep
  | OpRead

fun ledger_step :: "instant \<Rightarrow> ledger_op \<Rightarrow> ledger \<Rightarrow> ledger option" where
  "ledger_step now (OpCreate new_id uid th d n ua ip delta parent) L =
     (case create_token now new_id uid th d n ua ip delta parent L of
        Inl e \<Rightarrow> Some L
      | Inr (t, L') \<Rightarrow> Some L')"
| "ledger_step now (OpRevoke token_id replaced_by) L = Some (snd (revoke_token now token_id replaced_by L))"
| "ledger_step now (OpRevokeChain token_id) L = map_option snd (revoke_token_chain now token_id L)"
| "ledger_step now (OpRevokeAll uid except) L = Some (snd (revoke_all_user_tokens now uid except L))"
| "ledger_step now (OpRevokeDevice uid dev) L = Some (snd (revoke_device_tokens now uid dev L))"
| "ledger_step now OpSweep L = Some (snd (cleanup_expired_tokens now L))"
| "ledger_step now OpRead L = Some L"

section \<open>Concrete sessions\<close>

text \<open>
  Inputs for the worked examples. \<open>example_hash\<close> stands for SHA-256 there: all that the
  lifecycle needs of the hash is that it tells the secrets of a session apart. One active
  user, number 7, on device \<open>D1\<close>; the clock is in microseconds.
\<close>

definition example_hash :: "string \<Rightarrow> string" where
  "example_hash secret = CHR ''#'' # secret"

definition example_user :: user where
  "example_user = \<lparr> u_id = 7, u_is_active = True \<rparr>"

definition example_users :: "uuid \<Rightarrow> user option" where
  "example_users i = (if i = 7 then Some example_user else None)"

definition example_token :: "uuid \<Rightarrow> string \<Rightarrow> instant \<Rightarrow> RefreshToken" where
  "example_token i th expires =
     \<lparr> id' = i, user_id = 7, token_hash = th, device_id = Some ''D1'', device_name = None,
       user_agent = None, ip_address = None, expires_at = expires, is_revoked = False,
       revoked_at = None, replaced_by_id = None, parent_token_id = None \<rparr>"

definition thirty_days :: int where
  "thirty_days = 2592000000000"

text \<open>The ledger after a login with secret \<open>T0\<close> at time 0 (record 100).\<close>

definition ledger_T0 :: ledger where
  "ledger_T0 = [example_token 100 ''#T0'' thirty_days]"

definition cache_T0 :: cache where
  "cache_T0 = [''refresh_token:#T0'' \<mapsto>
     \<lparr> c_value = \<lparr> c_user_id = 7, c_device_id = Some ''D1'', c_expires_at = thirty_days \<rparr>,
       c_ex = 2592000, c_set_at = 0 \<rparr>]"

text \<open>The ledger after the rotation of \<open>T0\<close> into \<open>T1\<close> at time 10 (record 101).\<close>

definition ledger_T1 :: ledger where
  "ledger_T1 =
     [(example_token 100 ''#T0'' thirty_days)
        \<lparr> is_revoked := True, revoked_at := Some 10, replaced_by_id := Some 101 \<rparr>,
      (example_token 101 ''#T1'' (10 + thirty_days)) \<lparr> parent_token_id := Some 100 \<rparr>]"

text \<open>... after the rotation of \<open>T1\<close> into \<open>T2\<close> at time 20 (record 102) ...\<close>

definition ledger_T2 :: ledger where
  "ledger_T2 =
     [(example_token 100 ''#T0'' thirty_days)
        \<lparr> is_revoked := True, revoked_at := Some 10, replaced_by_id := Some 101 \<rparr>,
      (example_token 101 ''#T1'' (10 + thirty_days))
        \<lparr> is_revoked := True, revoked_at := Some 20, replaced_by_id := Some 102,
          parent_token_id := Some 100 \<rparr>,
      (example_token 102 ''#T2'' (20 + thirty_days)) \<lparr> parent_token_id := Some 101 \<rparr>]"

text \<open>... and after the rotation of \<open>T2\<close> into \<open>T3\<close> at time 30 (record 103).\<close>

definition ledger_T3 :: ledger where
  "ledger_T3 =
     [(example_token 100 ''#T0'' thirty_days)
        \<lparr> is_revoked := True, revoked_at := Some 10, replaced_by_id := Some 101 \<rparr>,
      (example_token 101 ''#T1'' (10 + thirty_days))
        \<lparr> is_revoked := True, revoked_at := Some 20, replaced_by_id := Some 102,
          parent_token_id := Some 100 \<rparr>,
      (example_token 102 ''#T2'' (20 + thirty_days))
        \<lparr> is_revoked := True, revoked_at := Some 30, replaced_by_id := Some 103,
          parent_token_id := Some 101 \<rparr>,
      (example_token 103 ''#T3'' (30 + thirty_days)) \<lparr> parent_token_id := Some 102 \<rparr>]"

text \<open>
  The same session run by the code: the login with \<open>T0\<close> from the empty state, then
  rotations at times 10, 20 and 30, each presenting the secret of the rotation before.
  A rotation that fails leaves the example where it was.
\<close>

definition rotate_example :: "instant \<Rightarrow> uuid \<Rightarrow> string \<Rightarrow> string \<Rightarrow> state \<Rightarrow> ((error + token_pair) \<times> state) option" where
  "rotate_example now new_id new_secret secret s =
     refresh_access_token example_hash now new_id new_secret example_users secret None None None None s"

definition after_rotation :: "instant \<Rightarrow> uuid \<Rightarrow> string \<Rightarrow> string \<Rightarrow> state \<Rightarrow> state" where
  "after_rotation now new_id new_secret secret s =
     (case rotate_example now new_id new_secret secret s of
        Some (Inr pair, s') \<Rightarrow> s'
      | _ \<Rightarrow> s)"

definition state_T0 :: state where
  "state_T0 = snd (create_token_pair example_hash 0 100 ''T0'' example_user (Some ''D1'') None None None
                     \<lparr> db = [], redis = Map.empty \<rparr>)"

definition state_T1 :: state where
  "state_T1 = after_rotation 10 101 ''T1'' ''T0'' state_T0"

definition state_T2 :: state where
  "state_T2 = after_rotation 20 102 ''T2'' ''T1'' state_T1"

definition state_T3 :: state where
  "state_T3 = after_rotation 30 103 ''T3'' ''T2'' state_T2"

definition bearer :: "instant \<Rightarrow> string \<Rightarrow> token_pair" where
  "bearer issued secret =
     \<lparr> access_token = AccessToken 7 (issued + 3600000000), refresh_token = secret,
       token_type = ''bearer'' \<rparr>"

text \<open>The cache entry that a token pair minted at time \<open>t\<close> for the example user gets.\<close>

definition example_entry :: "instant \<Rightarrow> cache_entry" where
  "example_entry t =
     \<lparr> c_value = \<lparr> c_user_id = 7, c_device_id = Some ''D1'', c_expires_at = t + thirty_days \<rparr>,
       c_ex = 2592000, c_set_at = t \<rparr>"

declare walk_chain.simps [code]

section \<open>Seconds of a duration\<close>

lemma log2_floor_bounds: "0 < n \<Longrightarrow> 2 ^ log2_floor n \<le> n \<and> n < 2 ^ Suc (log2_floor n)"
proof (induction n rule: log2_floor.induct)
  case (1 n)
  show ?case
  proof (cases "n < 2")
    case True
    with "1.prems" have "n = 1" by simp
    then show ?thesis by (simp add: log2_floor.simps)
  next
    case False
    then have "0 < n div 2" by simp
    with "1.IH" False have ih: "2 ^ log2_floor (n div 2) \<le> n div 2"
      "n div 2 < 2 ^ Suc (log2_floor (n div 2))" by simp_all
    have e: "log2_floor n = Suc (log2_floor (n div 2))"
      using False by (subst log2_floor.simps) simp
    from ih show ?thesis unfolding e by (simp; arith)
  qed
qed

lemma round_half_even_bounds:
  "a div b \<le> round_half_even a b \<and> round_half_even a b \<le> a div b + 1"
  by (simp add: round_half_even_def)

lemma round_half_even_up:
  "round_half_even a b = a div b \<or> (round_half_even a b = a div b + 1 \<and> b \<le> 2 * (a mod b))"
  by (auto simp: round_half_even_def)

lemmas float_defs = total_seconds_int_def int_of_true_div_def round_half_even_def
  log2_floor.simps Let_def

lemma total_seconds_int_examples:
  "total_seconds_int 500000 = 0" "total_seconds_int 1500000 = 1"
  "total_seconds_int 2592000000000 = 2592000"
  by (simp_all add: float_defs)

text \<open>
  Beyond \<open>2 ^ 34\<close> seconds the doubles are more than two microseconds apart, and the
  quotient can round up to the next whole second: one microsecond short of
  253402300800 seconds gives 253402300800.
\<close>

lemma total_seconds_int_rounds_up:
  "total_seconds_int 253402300799999999 = 253402300800"
  "253402300799999999 div 1000000 = (253402300799 :: int)"
  by (simp_all add: float_defs)

lemma log2_floor_less:
  assumes "1 \<le> k" and "k < 2 ^ b"
  shows "log2_floor (nat k) < b"
proof -
  from assms(1) have "0 < nat k" by simp
  from log2_floor_bounds [OF this] have "2 ^ log2_floor (nat k) \<le> nat k" by simp
  also from assms have "nat k < 2 ^ b"
    by (simp add: nat_less_iff)
  finally show ?thesis by simp
qed

lemma rounding_window:
  fixes X K P r rho m :: int
  assumes X: "X = r * 1000000 + rho" "0 \<le> rho" "rho < 1000000"
    and lower: "K * 1000000 \<le> X" and upper: "X + P \<le> (K + P) * 1000000" and P: "524288 \<le> P"
    and m: "m = r \<or> (m = r + 1 \<and> 1000000 \<le> 2 * rho)"
  shows "K \<le> m \<and> m < K + P"
proof
  from X lower have "K * 1000000 < (r + 1) * 1000000" by (simp add: algebra_simps)
  then have "K \<le> r" by simp
  with m show "K \<le> m" by auto
next
  from m show "m < K + P"
  proof
    assume "m = r"
    moreover from X upper P have "r * 1000000 < (K + P) * 1000000" by linarith
    then have "r < K + P" by simp
    ultimately show ?thesis by simp
  next
    assume a: "m = r + 1 \<and> 1000000 \<le> 2 * rho"
    with X upper P have "(r + 1) * 1000000 < (K + P) * 1000000" by (simp add: algebra_simps)
    then have "r + 1 < K + P" by simp
    with a show ?thesis by simp
  qed
qed

lemma div_window:
  fixes m k P :: int
  assumes "k * P \<le> m" and "m < k * P + P" and "0 < P"
  shows "m div P = k"
proof -
  have "m = P * k + (m - k * P)" by (simp add: mult.commute)
  moreover have "0 \<le> m - k * P" "m - k * P < P" using assms by simp_all
  ultimately show ?thesis by (rule int_div_pos_eq)
qed

lemma int_of_true_div_exact:
  assumes lo: "1000000 \<le> n" and hi: "n < 2 ^ 34 * 1000000"
  shows "int_of_true_div n 1000000 = n div 1000000"
proof -
  define k where "k = n div 1000000"
  define e where "e = log2_floor (nat k)"
  define P :: int where "P = 2 ^ (52 - e)"
  have k1: "1 \<le> k" using lo by (simp add: k_def)
  have k34: "k < 2 ^ 34" using hi by (simp add: k_def)
  have kb: "k * 1000000 \<le> n" "n + 1 \<le> (k + 1) * 1000000"
    by (simp_all add: k_def)
  have e33: "e < 34"
    unfolding e_def using k1 k34 by (rule log2_floor_less)
  have "(2::int) ^ 19 \<le> 2 ^ (52 - e)"
    using e33 by (intro power_increasing) simp_all
  then have P19: "524288 \<le> P" by (simp add: P_def)
  define X where "X = n * P"
  define K where "K = k * P"
  define m where "m = round_half_even X 1000000"
  have "k * 1000000 * P \<le> n * P"
    using kb(1) P19 by (intro mult_right_mono) simp_all
  then have lower: "K * 1000000 \<le> X" by (simp add: K_def X_def mult_ac)
  have "(n + 1) * P \<le> (k + 1) * 1000000 * P"
    using kb(2) P19 by (intro mult_right_mono) simp_all
  then have upper: "X + P \<le> (K + P) * 1000000"
    by (simp add: K_def X_def algebra_simps)
  have split: "X = (X div 1000000) * 1000000 + X mod 1000000"
    "0 \<le> X mod 1000000" "X mod 1000000 < 1000000"
    by simp_all
  from round_half_even_up [of X 1000000]
  have m: "m = X div 1000000 \<or> (m = X div 1000000 + 1 \<and> 1000000 \<le> 2 * (X mod 1000000))"
    by (simp add: m_def)
  from rounding_window [OF split lower upper P19 m] have "k * P \<le> m" "m < k * P + P"
    by (simp_all add: K_def)
  moreover from P19 have "0 < P" by simp
  ultimately have res: "m div P = k" by (rule div_window)
  have "int_of_true_div n 1000000 = round_half_even (n * 2 ^ (52 - e)) 1000000 div 2 ^ (52 - e)"
    using e33 by (simp add: int_of_true_div_def Let_def e_def k_def)
  also have "\<dots> = m div P" by (simp add: m_def X_def P_def)
  finally show ?thesis using res by (simp add: k_def)
qed

lemma int_of_true_div_pos:
  assumes lo: "1000000 \<le> n"
  shows "0 < int_of_true_div n 1000000"
proof -
  define k where "k = n div 1000000"
  define e where "e = log2_floor (nat k)"
  have k1: "1 \<le> k" using lo by (simp add: k_def)
  have kb: "k * 1000000 \<le> n" by (simp add: k_def)
  from k1 have "0 < nat k" by simp
  from log2_floor_bounds [OF this] have "2 ^ e \<le> nat k" by (simp add: e_def)
  then have ke: "2 ^ e \<le> k" using k1 by (simp add: le_nat_iff)
  show ?thesis
  proof (cases "e \<le> 52")
    case True
    define P :: int where "P = 2 ^ (52 - e)"
    have P0: "0 < P" by (simp add: P_def)
    have "k * 1000000 * P \<le> n * P"
      using kb P0 by (intro mult_right_mono) simp_all
    then have "(k * P * 1000000) div 1000000 \<le> (n * P) div 1000000"
      by (intro zdiv_mono1) (simp_all add: mult_ac)
    then have "k * P \<le> (n * P) div 1000000" by simp
    also have "\<dots> \<le> round_half_even (n * P) 1000000"
      using round_half_even_bounds by simp
    finally have "k * P div P \<le> round_half_even (n * P) 1000000 div P"
      using P0 by (intro zdiv_mono1) simp_all
    with P0 k1 have "1 \<le> round_half_even (n * P) 1000000 div P" by simp
    with True show ?thesis
      by (simp add: int_of_true_div_def Let_def e_def [symmetric] k_def [symmetric] P_def)
  next
    case False
    define T :: int where "T = 2 ^ (e - 52)"
    have T0: "0 < T" by (simp add: T_def)
    have "T \<le> 2 ^ e" unfolding T_def by (intro power_increasing) simp_all
    with ke have "T \<le> k" by simp
    then have "1000000 * T \<le> k * 1000000" by simp
    with kb have "1000000 * T \<le> n" by simp
    then have "(1000000 * T) div (1000000 * T) \<le> n div (1000000 * T)"
      using T0 by (intro zdiv_mono1) simp_all
    then have "1 \<le> n div (1000000 * T)"
      using T0 by simp
    also have "\<dots> \<le> round_half_even n (1000000 * T)"
      using round_half_even_bounds by simp
    finally have "0 < round_half_even n (1000000 * T) * T"
      using T0 by simp
    with False show ?thesis
      by (simp add: int_of_true_div_def Let_def e_def [symmetric] k_def [symmetric] T_def)
  qed
qed

section \<open>Evaluating the model\<close>

lemmas repo_defs = create_token_def varchar_def get_by_token_hash_def get_def revoke_token_def sql_update_def
  sql_delete_def is_token_valid_def update_parent_token_id_def revoke_token_chain_def
  revoke_all_user_tokens_def

lemmas cache_defs = cache_refresh_token_def total_seconds_int_examples redis_set_def redis_get_def
  get_cached_token_def invalidate_token_cache_def token_key_def

lemmas service_defs = create_token_pair_def load_token_and_user_def refresh_validate_def
  refresh_issue_def refresh_access_token_def logout_all_devices_def py_or_def days_def minutes_def
  REFRESH_TOKEN_EXPIRE_DAYS_def ACCESS_TOKEN_EXPIRE_MINUTES_def Let_def

lemmas example_defs = example_hash_def example_user_def example_users_def example_token_def
  thirty_days_def rotate_example_def after_rotation_def bearer_def

section \<open>Lookups and updates\<close>

lemma find_Some_mem: "find P L = Some r \<Longrightarrow> r \<in> set L \<and> P r"
  by (induction L) (auto split: if_splits)

lemma find_unique:
  "distinct (map f L) \<Longrightarrow> r \<in> set L \<Longrightarrow> find (\<lambda>x. f x = f r) L = Some r"
  by (induction L) (auto simp: rev_image_eqI)

lemma sql_update_no_match:
  "\<forall>r\<in>set L. \<not> c r \<Longrightarrow> sql_update c f L = (0, L)"
  by (simp add: sql_update_def map_idI)

section \<open>The ledger\<close>

lemma revoke_token_snd:
  "snd (revoke_token now i rep L) =
     map (\<lambda>r. if id' r = i then r\<lparr> is_revoked := True, revoked_at := Some now, replaced_by_id := rep \<rparr> else r) L"
  by (simp add: revoke_token_def sql_update_def split_def)

lemma revoke_token_fst:
  "fst (revoke_token now i rep L) \<longleftrightarrow> i \<in> set (map id' L)"
  by (induction L) (simp_all add: revoke_token_def sql_update_def split_def)

lemma revoke_token_ids: "map id' (snd (revoke_token now i rep L)) = map id' L"
  by (induction L) (simp_all add: revoke_token_snd)

lemma revoke_token_absorb:
  "snd (revoke_token t2 i rep2 (snd (revoke_token t1 i rep1 L))) = snd (revoke_token t2 i rep2 L)"
  by (induction L) (simp_all add: revoke_token_snd)

lemma revoke_token_fields:
  assumes "r \<in> set (snd (revoke_token now i rep L))" and "id' r = i"
  shows "is_revoked r \<and> revoked_at r = Some now \<and> replaced_by_id r = rep"
proof -
  from assms(1) obtain x where x: "x \<in> set L"
    "r = (if id' x = i then x\<lparr> is_revoked := True, revoked_at := Some now, replaced_by_id := rep \<rparr> else x)"
    unfolding revoke_token_snd by auto
  show ?thesis
  proof (cases "id' x = i")
    case True
    with x show ?thesis by simp
  next
    case False
    with x assms(2) show ?thesis by simp
  qed
qed

text \<open>
  C10. Revoking an id that no record of the ledger has returns false, raises nothing (the
  model of \<open>revoke_token\<close> has no error branch, as the source has no raise), and leaves
  the ledger as it was.
\<close>

theorem revoke_token_missing_id:
  "token_id \<notin> set (map id' L) \<Longrightarrow> revoke_token now token_id replaced_by L = (False, L)"
proof -
  assume "token_id \<notin> set (map id' L)"
  then have "\<forall>r\<in>set L. \<not> id' r = token_id" by auto
  then show ?thesis
    unfolding revoke_token_def by (simp add: sql_update_no_match)
qed

theorem revoke_token_missing_id_witness:
  "999 \<notin> set (map id' ledger_T1) \<and> revoke_token 50 999 (Some 3) ledger_T1 = (False, ledger_T1)"
proof -
  have h: "999 \<notin> set (map id' ledger_T1)"
    by (simp add: ledger_T1_def example_token_def)
  from h revoke_token_missing_id [OF h, of 50 "Some 3"] show ?thesis by simp
qed

text \<open>
  C3, as the code has it. On a ledger whose hashes are unique, \<open>is_token_valid\<close> is true
  iff a record with that hash exists, is not revoked, and its \<open>expires_at\<close> is not before
  the current instant: the test is \<open>not expires_at < now\<close>, so a record expiring
  exactly now is still valid.
\<close>

theorem is_token_valid_iff:
  assumes "distinct (map token_hash L)"
  shows "is_token_valid now L th \<longleftrightarrow>
           (\<exists>r\<in>set L. token_hash r = th \<and> \<not> is_revoked r \<and> now \<le> expires_at r)"
proof
  assume "is_token_valid now L th"
  then obtain t where t: "get_by_token_hash L th = Some t" "\<not> is_revoked t" "\<not> expires_at t < now"
    by (auto simp: is_token_valid_def split: option.splits if_splits)
  from t(1) have "t \<in> set L \<and> token_hash t = th"
    unfolding get_by_token_hash_def by (rule find_Some_mem)
  with t show "\<exists>r\<in>set L. token_hash r = th \<and> \<not> is_revoked r \<and> now \<le> expires_at r"
    by force
next
  assume "\<exists>r\<in>set L. token_hash r = th \<and> \<not> is_revoked r \<and> now \<le> expires_at r"
  then obtain r where r: "r \<in> set L" "token_hash r = th" "\<not> is_revoked r" "now \<le> expires_at r"
    by blast
  from assms r(1) have "find (\<lambda>x. token_hash x = token_hash r) L = Some r"
    by (rule find_unique)
  with r show "is_token_valid now L th"
    by (auto simp: is_token_valid_def get_by_token_hash_def)
qed

theorem is_token_valid_iff_witness:
  "distinct (map token_hash ledger_T1) \<and> is_token_valid 20 ledger_T1 ''#T1''
   \<and> \<not> is_token_valid 20 ledger_T1 ''#T0'' \<and> \<not> is_token_valid 20 ledger_T1 ''#T9''"
proof -
  have h: "distinct (map token_hash ledger_T1)"
    by (simp add: ledger_T1_def example_token_def)
  from h is_token_valid_iff [OF h, of 20 "''#T1''"] is_token_valid_iff [OF h, of 20 "''#T0''"]
    is_token_valid_iff [OF h, of 20 "''#T9''"]
  show ?thesis
    by (simp add: ledger_T1_def example_token_def thirty_days_def)
qed

text \<open>
  C3, as the claim states it, fails at the boundary: the record of \<open>ledger_T0\<close> expires at
  \<open>thirty_days\<close>, and at that very instant the check still answers true.
\<close>

theorem is_token_valid_boundary_counterexample:
  "get_by_token_hash ledger_T0 ''#T0'' = Some (example_token 100 ''#T0'' thirty_days)
   \<and> expires_at (example_token 100 ''#T0'' thirty_days) = thirty_days
   \<and> \<not> is_revoked (example_token 100 ''#T0'' thirty_days)
   \<and> is_token_valid thirty_days ledger_T0 ''#T0'' = True"
  by (simp add: ledger_T0_def example_token_def is_token_valid_def get_by_token_hash_def)

text \<open>
  C6, as the code has it. Revoking an existing record twice raises nothing and returns
  success both times, and the record stays revoked; but the second call writes again: the
  ledger after both calls is the one a single call with the second call's time and
  \<open>replaced_by_id\<close> gives, so \<open>revoked_at\<close> and \<open>replaced_by_id\<close> are those of the second
  call.
\<close>

theorem revoke_token_twice:
  assumes "token_id \<in> set (map id' L)"
  shows "fst (revoke_token t1 token_id rep1 L)
         \<and> fst (revoke_token t2 token_id rep2 (snd (revoke_token t1 token_id rep1 L)))
         \<and> snd (revoke_token t2 token_id rep2 (snd (revoke_token t1 token_id rep1 L)))
             = snd (revoke_token t2 token_id rep2 L)
         \<and> (\<forall>r\<in>set (snd (revoke_token t2 token_id rep2 L)). id' r = token_id \<longrightarrow>
               is_revoked r \<and> revoked_at r = Some t2 \<and> replaced_by_id r = rep2)"
proof (intro conjI)
  show "fst (revoke_token t1 token_id rep1 L)"
    using assms by (simp only: revoke_token_fst)
  show "fst (revoke_token t2 token_id rep2 (snd (revoke_token t1 token_id rep1 L)))"
    using assms by (simp only: revoke_token_fst revoke_token_ids)
  show "snd (revoke_token t2 token_id rep2 (snd (revoke_token t1 token_id rep1 L)))
          = snd (revoke_token t2 token_id rep2 L)"
    by (rule revoke_token_absorb)
  show "\<forall>r\<in>set (snd (revoke_token t2 token_id rep2 L)). id' r = token_id \<longrightarrow>
          is_revoked r \<and> revoked_at r = Some t2 \<and> replaced_by_id r = rep2"
    using revoke_token_fields by blast
qed

theorem revoke_token_twice_witness:
  "100 \<in> set (map id' ledger_T0)
   \<and> fst (revoke_token 10 100 (Some 101) ledger_T0)
   \<and> fst (revoke_token 20 100 None (snd (revoke_token 10 100 (Some 101) ledger_T0)))
   \<and> snd (revoke_token 20 100 None (snd (revoke_token 10 100 (Some 101) ledger_T0)))
       = [(example_token 100 ''#T0'' thirty_days) \<lparr> is_revoked := True, revoked_at := Some 20 \<rparr>]"
proof -
  have h: "100 \<in> set (map id' ledger_T0)"
    by (simp add: ledger_T0_def example_token_def)
  have e: "snd (revoke_token 20 100 None ledger_T0)
     = [(example_token 100 ''#T0'' thirty_days) \<lparr> is_revoked := True, revoked_at := Some 20 \<rparr>]"
    by (simp add: revoke_token_snd ledger_T0_def example_token_def)
  from revoke_token_twice [OF h, of 10 "Some 101" 20 None] h e show ?thesis
    by (simp only: simp_thms)
qed

text \<open>
  C6, as the claim states it, fails: the second call is not a no-op. After a revocation at
  time 10 with forward link 101, a second one at time 20 without a link changes the
  ledger, moves \<open>revoked_at\<close> to 20 and erases the link.
\<close>

theorem revoke_token_twice_counterexample:
  "snd (revoke_token 20 100 None (snd (revoke_token 10 100 (Some 101) ledger_T0)))
     \<noteq> snd (revoke_token 10 100 (Some 101) ledger_T0)
   \<and> map revoked_at (snd (revoke_token 10 100 (Some 101) ledger_T0)) = [Some 10]
   \<and> map revoked_at (snd (revoke_token 20 100 None (snd (revoke_token 10 100 (Some 101) ledger_T0))))
       = [Some 20]
   \<and> map replaced_by_id (snd (revoke_token 10 100 (Some 101) ledger_T0)) = [Some 101]
   \<and> map replaced_by_id (snd (revoke_token 20 100 None (snd (revoke_token 10 100 (Some 101) ledger_T0))))
       = [None]"
  by (simp add: ledger_T0_def example_token_def revoke_token_snd)

section \<open>The cache\<close>

lemma total_seconds_int_pos: "1000000 \<le> d \<Longrightarrow> 0 < total_seconds_int d"
  using int_of_true_div_pos [of d] by (simp add: total_seconds_int_def)

lemma total_seconds_int_nonpos: "d < 1000000 \<Longrightarrow> total_seconds_int d \<le> 0"
proof (cases "0 \<le> d")
  case True
  assume "d < 1000000"
  with True show ?thesis by (simp add: total_seconds_int_def)
next
  case False
  show ?thesis
  proof (cases "- d < 1000000")
    case True
    with False show ?thesis by (simp add: total_seconds_int_def)
  next
    case far: False
    then have "0 < int_of_true_div (- d) 1000000"
      by (intro int_of_true_div_pos) simp
    with False far show ?thesis by (simp add: total_seconds_int_def)
  qed
qed

lemma total_seconds_int_floor:
  assumes "0 \<le> d" and "d < 2 ^ 34 * 1000000"
  shows "total_seconds_int d = d div 1000000"
proof (cases "d < 1000000")
  case True
  with assms(1) show ?thesis by (simp add: total_seconds_int_def)
next
  case False
  then have "int_of_true_div d 1000000 = d div 1000000"
    using assms(2) by (intro int_of_true_div_exact) simp_all
  with False assms(1) show ?thesis by (simp add: total_seconds_int_def)
qed

text \<open>
  C8, as the code has it. The entry is written iff at least one full second remains, and
  otherwise the cache is left as it was. The expiry given to the cache is
  \<open>int((expires_at - now).total_seconds())\<close>, a positive whole number of seconds; it is
  the remaining time rounded down to whole seconds whenever that time is below \<open>2 ^ 34\<close>
  seconds (some 544 years).
\<close>

theorem cache_refresh_token_contract:
  "cache_refresh_token now th uid dev expires C =
     (if 1000000 \<le> expires - now
      then C(token_key th \<mapsto>
             \<lparr> c_value = \<lparr> c_user_id = uid, c_device_id = dev, c_expires_at = expires \<rparr>,
               c_ex = total_seconds_int (expires - now), c_set_at = now \<rparr>)
      else C)
   \<and> (1000000 \<le> expires - now \<longrightarrow> 0 < total_seconds_int (expires - now))
   \<and> (0 \<le> expires - now \<longrightarrow> expires - now < 2 ^ 34 * 1000000 \<longrightarrow>
        total_seconds_int (expires - now) = (expires - now) div 1000000)"
proof (intro conjI impI)
  show "cache_refresh_token now th uid dev expires C =
     (if 1000000 \<le> expires - now
      then C(token_key th \<mapsto>
             \<lparr> c_value = \<lparr> c_user_id = uid, c_device_id = dev, c_expires_at = expires \<rparr>,
               c_ex = total_seconds_int (expires - now), c_set_at = now \<rparr>)
      else C)"
  proof (cases "1000000 \<le> expires - now")
    case True
    then have "0 < total_seconds_int (expires - now)" by (rule total_seconds_int_pos)
    with True show ?thesis
      by (simp add: cache_refresh_token_def redis_set_def Let_def)
  next
    case False
    then have "total_seconds_int (expires - now) \<le> 0"
      by (intro total_seconds_int_nonpos) simp
    with False show ?thesis
      by (simp add: cache_refresh_token_def Let_def)
  qed
next
  assume "1000000 \<le> expires - now"
  then show "0 < total_seconds_int (expires - now)" by (rule total_seconds_int_pos)
next
  assume "0 \<le> expires - now" and "expires - now < 2 ^ 34 * 1000000"
  then show "total_seconds_int (expires - now) = (expires - now) div 1000000"
    by (rule total_seconds_int_floor)
qed

theorem cache_refresh_token_contract_witness:
  "1000000 \<le> thirty_days - 0 \<and> 0 \<le> thirty_days - 0 \<and> thirty_days - 0 < 2 ^ 34 * 1000000
   \<and> total_seconds_int (thirty_days - 0) = 2592000
   \<and> map_option c_ex (cache_refresh_token 0 ''#T9'' 7 None thirty_days cache_T0 (token_key ''#T9''))
       = Some 2592000"
proof -
  have h: "1000000 \<le> thirty_days - 0" "0 \<le> thirty_days - 0" "thirty_days - 0 < 2 ^ 34 * 1000000"
    by (simp_all add: thirty_days_def)
  note t = cache_refresh_token_contract [of 0 "''#T9''" 7 None thirty_days cache_T0]
  from conjunct2 [OF conjunct2 [OF t]] h
  have ttl: "total_seconds_int (thirty_days - 0) = (thirty_days - 0) div 1000000" by blast
  then have ttl': "total_seconds_int (thirty_days - 0) = 2592000"
    by (simp add: thirty_days_def)
  from conjunct1 [OF t] h(1)
  have "cache_refresh_token 0 ''#T9'' 7 None thirty_days cache_T0 (token_key ''#T9'')
          = Some \<lparr> c_value = \<lparr> c_user_id = 7, c_device_id = None, c_expires_at = thirty_days \<rparr>,
                   c_ex = total_seconds_int (thirty_days - 0), c_set_at = 0 \<rparr>"
    by simp
  with ttl' h show ?thesis by simp
qed

text \<open>
  C8, as the claim states it, fails: with half a second left (a strictly positive
  duration) nothing is written, and with a second and a half left the entry's expiry is
  one second, not the duration.
\<close>

theorem cache_refresh_token_counterexample:
  "(0::int) < 500000 - 0
   \<and> cache_refresh_token 0 ''#T9'' 7 None 500000 cache_T0 (token_key ''#T9'') = None
   \<and> map_option c_ex (cache_refresh_token 0 ''#T9'' 7 None 1500000 cache_T0 (token_key ''#T9'')) = Some 1"
  by (simp add: cache_defs cache_T0_def Let_def)

section \<open>The example session\<close>

lemma state_T0_eq:
  "state_T0 = \<lparr> db = ledger_T0, redis = [''refresh_token:#T0'' \<mapsto> example_entry 0] \<rparr>"
  by (simp add: state_T0_def ledger_T0_def example_entry_def repo_defs cache_defs service_defs
        example_defs)

lemma rotate_T0:
  "rotate_example 10 101 ''T1'' ''T0'' state_T0 =
     Some (Inr (bearer 10 ''T1''),
           \<lparr> db = ledger_T1,
             redis = [''refresh_token:#T0'' \<mapsto> example_entry 0,
                      ''refresh_token:#T1'' \<mapsto> example_entry 10]
                       (''refresh_token:#T0'' := None) \<rparr>)"
  unfolding state_T0_eq
  by (simp add: ledger_T0_def ledger_T1_def example_entry_def repo_defs cache_defs service_defs
        example_defs)

lemma state_T1_eq:
  "state_T1 =
     \<lparr> db = ledger_T1,
       redis = [''refresh_token:#T0'' \<mapsto> example_entry 0,
                ''refresh_token:#T1'' \<mapsto> example_entry 10]
                 (''refresh_token:#T0'' := None) \<rparr>"
  by (simp add: state_T1_def after_rotation_def rotate_T0)

lemma rotate_T1:
  "rotate_example 20 102 ''T2'' ''T1'' state_T1 =
     Some (Inr (bearer 20 ''T2''),
           \<lparr> db = ledger_T2,
             redis = [''refresh_token:#T0'' \<mapsto> example_entry 0,
                      ''refresh_token:#T1'' \<mapsto> example_entry 10,
                      ''refresh_token:#T2'' \<mapsto> example_entry 20]
                       (''refresh_token:#T0'' := None, ''refresh_token:#T1'' := None) \<rparr>)"
  unfolding state_T1_eq
  by (simp add: ledger_T1_def ledger_T2_def example_entry_def repo_defs cache_defs service_defs
        example_defs)

lemma state_T2_eq:
  "state_T2 =
     \<lparr> db = ledger_T2,
       redis = [''refresh_token:#T0'' \<mapsto> example_entry 0,
                ''refresh_token:#T1'' \<mapsto> example_entry 10,
                ''refresh_token:#T2'' \<mapsto> example_entry 20]
                 (''refresh_token:#T0'' := None, ''refresh_token:#T1'' := None) \<rparr>"
  by (simp add: state_T2_def after_rotation_def rotate_T1)

lemma rotate_T2:
  "rotate_example 30 103 ''T3'' ''T2'' state_T2 =
     Some (Inr (bearer 30 ''T3''),
           \<lparr> db = ledger_T3,
             redis = [''refresh_token:#T0'' \<mapsto> example_entry 0,
                      ''refresh_token:#T1'' \<mapsto> example_entry 10,
                      ''refresh_token:#T2'' \<mapsto> example_entry 20,
                      ''refresh_token:#T3'' \<mapsto> example_entry 30]
                       (''refresh_token:#T0'' := None, ''refresh_token:#T1'' := None,
                        ''refresh_token:#T2'' := None) \<rparr>)"
  unfolding state_T2_eq
  by (simp add: ledger_T2_def ledger_T3_def example_entry_def repo_defs cache_defs service_defs
        example_defs)

lemma state_T3_eq:
  "state_T3 =
     \<lparr> db = ledger_T3,
       redis = [''refresh_token:#T0'' \<mapsto> example_entry 0,
                ''refresh_token:#T1'' \<mapsto> example_entry 10,
                ''refresh_token:#T2'' \<mapsto> example_entry 20,
                ''refresh_token:#T3'' \<mapsto> example_entry 30]
                 (''refresh_token:#T0'' := None, ''refresh_token:#T1'' := None,
                  ''refresh_token:#T2'' := None) \<rparr>"
  by (simp add: state_T3_def after_rotation_def rotate_T2)

lemma reuse_T0:
  "rotate_example 20 102 ''X'' ''T0'' state_T1 =
     Some (Inl (AuthenticationError ''Token has been revoked. Please log in again.''), state_T1)"
  unfolding state_T1_eq
  by (simp add: ledger_T1_def example_entry_def repo_defs cache_defs service_defs example_defs
        walk_chain.simps)

text \<open>
  C1 on the code. The login with \<open>T0\<close> and its rotation into \<open>T1\<close> give \<open>state_T1\<close>.
  Presenting \<open>T0\<close> again fails with the reuse error, but leaves the state as it was: the
  record of \<open>T1\<close> is not revoked, it is still valid, and a rotation presenting \<open>T1\<close>
  afterwards succeeds.
\<close>

theorem reuse_leaves_successor_valid:
  "rotate_example 10 101 ''T1'' ''T0'' state_T0 = Some (Inr (bearer 10 ''T1''), state_T1)
   \<and> rotate_example 20 102 ''X'' ''T0'' state_T1 =
       Some (Inl (AuthenticationError ''Token has been revoked. Please log in again.''), state_T1)
   \<and> map_option is_revoked (get_by_token_hash (db state_T1) (example_hash ''T1'')) = Some False
   \<and> is_token_valid 30 (db state_T1) (example_hash ''T1'')
   \<and> map_option fst (rotate_example 30 102 ''T2'' ''T1'' state_T1) = Some (Inr (bearer 30 ''T2''))"
proof (intro conjI)
  show "rotate_example 10 101 ''T1'' ''T0'' state_T0 = Some (Inr (bearer 10 ''T1''), state_T1)"
    by (simp only: rotate_T0 state_T1_eq)
  show "rotate_example 20 102 ''X'' ''T0'' state_T1 =
          Some (Inl (AuthenticationError ''Token has been revoked. Please log in again.''), state_T1)"
    by (rule reuse_T0)
  show "map_option is_revoked (get_by_token_hash (db state_T1) (example_hash ''T1'')) = Some False"
    by (simp add: state_T1_eq ledger_T1_def get_by_token_hash_def example_defs)
  show "is_token_valid 30 (db state_T1) (example_hash ''T1'')"
    by (simp add: state_T1_eq ledger_T1_def is_token_valid_def get_by_token_hash_def example_defs)
  show "map_option fst (rotate_example 30 102 ''T2'' ''T1'' state_T1) = Some (Inr (bearer 30 ''T2''))"
    unfolding state_T1_eq
    by (simp add: ledger_T1_def example_entry_def repo_defs cache_defs service_defs example_defs)
qed

section \<open>Rotation\<close>

lemma find_append_fresh:
  "k \<notin> set (map f L) \<Longrightarrow> f x = k \<Longrightarrow> find (\<lambda>r. f r = k) (L @ [x]) = Some x"
  by (induction L) auto

lemma find_append_old:
  "k \<in> set (map f L) \<Longrightarrow> find (\<lambda>r. f r = k) (L @ M) = find (\<lambda>r. f r = k) L"
  by (induction L) auto

lemma find_map_preserved:
  "(\<And>r. P (g r) = P r) \<Longrightarrow> find P (map g L) = map_option g (find P L)"
  by (induction L) auto

lemma create_token_Inr:
  assumes "create_token now new_id uid th dn dv ua ip delta parent L = Inr (t, L')"
  shows "new_id \<notin> set (map id' L) \<and> th \<notin> set (map token_hash L) \<and> id' t = new_id
         \<and> token_hash t = th \<and> \<not> is_revoked t \<and> L' = L @ [t]"
proof -
  from assms obtain a b c d where
    "(if new_id \<in> set (map id' L) \<or> th \<in> set (map token_hash L) then Inl IntegrityError
      else Inr (\<lparr> id' = new_id, user_id = uid, token_hash = th, device_id = a, device_name = b,
                  user_agent = c, ip_address = d, expires_at = now + delta, is_revoked = False,
                  revoked_at = None, replaced_by_id = None, parent_token_id = parent \<rparr>,
                L @ [\<lparr> id' = new_id, user_id = uid, token_hash = th, device_id = a,
                       device_name = b, user_agent = c, ip_address = d, expires_at = now + delta,
                       is_revoked = False, revoked_at = None, replaced_by_id = None,
                       parent_token_id = parent \<rparr>])) = Inr (t, L')"
    by (simp add: create_token_def Let_def split: option.splits)
  then show ?thesis
    by (cases "new_id \<in> set (map id' L) \<or> th \<in> set (map token_hash L)") auto
qed



lemma refresh_issue_Inl:
  assumes "create_token now new_id (u_id usr) (H new_secret) (py_or dev_id (device_id tok))
             (py_or dev_name (device_name tok)) ua ip (days REFRESH_TOKEN_EXPIRE_DAYS) None (db s)
           = Inl e"
  shows "refresh_issue H now new_id new_secret tok usr secret dev_id dev_name ua ip s = (Inl e, s)"
  using assms by (simp add: refresh_issue_def create_token_pair_def Let_def)

lemma refresh_issue_Inr:
  assumes "refresh_issue H now new_id new_secret tok usr secret dev_id dev_name ua ip s
             = (Inr pair, s')"
  shows "\<exists>new. id' new = new_id \<and> token_hash new = H new_secret \<and> \<not> is_revoked new
            \<and> new_id \<notin> set (map id' (db s)) \<and> H new_secret \<notin> set (map token_hash (db s))
            \<and> refresh_token pair = new_secret
            \<and> db s' = snd (revoke_token now (id' tok) (Some new_id)
                             (update_parent_token_id (db s @ [new]) new (id' tok)))"
proof (cases "create_token now new_id (u_id usr) (H new_secret) (py_or dev_id (device_id tok))
             (py_or dev_name (device_name tok)) ua ip (days REFRESH_TOKEN_EXPIRE_DAYS) None (db s)")
  case (Inl e)
  then have "refresh_issue H now new_id new_secret tok usr secret dev_id dev_name ua ip s
               = (Inl e, s)"
    by (rule refresh_issue_Inl)
  with assms show ?thesis by simp
next
  case (Inr p)
  obtain new L1 where p: "p = (new, L1)" by (cases p)
  from Inr p have c: "create_token now new_id (u_id usr) (H new_secret)
             (py_or dev_id (device_id tok)) (py_or dev_name (device_name tok)) ua ip
             (days REFRESH_TOKEN_EXPIRE_DAYS) None (db s) = Inr (new, L1)"
    by simp
  from create_token_Inr [OF c]
  have fresh: "new_id \<notin> set (map id' (db s))" "H new_secret \<notin> set (map token_hash (db s))"
    and new: "id' new = new_id" "token_hash new = H new_secret" "\<not> is_revoked new"
    and L1: "L1 = db s @ [new]"
    by simp_all
  have g: "get_by_token_hash (db s @ [new]) (H new_secret) = Some new"
    unfolding get_by_token_hash_def using fresh(2) new(2) by (rule find_append_fresh)
  have "refresh_issue H now new_id new_secret tok usr secret dev_id dev_name ua ip s =
     (Inr \<lparr> access_token = AccessToken (u_id usr) (now + minutes ACCESS_TOKEN_EXPIRE_MINUTES),
             refresh_token = new_secret, token_type = ''bearer'' \<rparr>,
      \<lparr> db = snd (revoke_token now (id' tok) (Some new_id)
                   (update_parent_token_id (db s @ [new]) new (id' tok))),
        redis = invalidate_token_cache
                  (cache_refresh_token now (H new_secret) (u_id usr) (py_or dev_id (device_id tok))
                     (now + days REFRESH_TOKEN_EXPIRE_DAYS) (redis s)) (H secret) \<rparr>)"
    by (simp add: refresh_issue_def create_token_pair_def c L1 g new(1) Let_def case_prod_beta)
  with assms have "refresh_token pair = new_secret"
    "db s' = snd (revoke_token now (id' tok) (Some new_id)
                   (update_parent_token_id (db s @ [new]) new (id' tok)))"
    by auto
  with fresh new show ?thesis by blast
qed

lemma varchar_examples:
  "varchar 500 (Some (replicate 501 CHR ''a'')) = None"
  "varchar 500 (Some (replicate 500 CHR ''a'' @ '' '')) = Some (Some (replicate 500 CHR ''a''))"
  "varchar 500 (Some ''Mozilla/5.0'') = Some (Some ''Mozilla/5.0'')"
  "varchar 500 None = Some None"
  by (simp_all add: varchar_def)

text \<open>
  A rotation whose \<open>User-Agent\<close> has 501 characters fails in its second half with the
  data error of the insert, and writes nothing: the old record is not revoked.
\<close>

lemma refresh_issue_overlong_user_agent:
  "refresh_issue example_hash 10 101 ''T1'' (example_token 100 ''#T0'' thirty_days) example_user
     ''T0'' None None (Some (replicate 501 CHR ''a'')) None state_T0 = (Inl DataError, state_T0)"
  by (rule refresh_issue_Inl) (simp add: create_token_def varchar_def py_or_def example_token_def)

lemma update_parent_token_id_get:
  "get (update_parent_token_id L x p) k =
     map_option (\<lambda>r. if id' r = id' x then r\<lparr> parent_token_id := Some p \<rparr> else r) (get L k)"
  unfolding get_def update_parent_token_id_def
  by (rule find_map_preserved) simp

lemma update_parent_token_id_get_by_hash:
  "get_by_token_hash (update_parent_token_id L x p) th =
     map_option (\<lambda>r. if id' r = id' x then r\<lparr> parent_token_id := Some p \<rparr> else r)
       (get_by_token_hash L th)"
  unfolding get_by_token_hash_def update_parent_token_id_def
  by (rule find_map_preserved) simp

lemma revoke_token_get:
  "get (snd (revoke_token now i rep L)) k =
     map_option (\<lambda>r. if id' r = i
                      then r\<lparr> is_revoked := True, revoked_at := Some now, replaced_by_id := rep \<rparr>
                      else r) (get L k)"
  unfolding get_def revoke_token_snd
  by (rule find_map_preserved) simp

lemma revoke_token_get_by_hash:
  "get_by_token_hash (snd (revoke_token now i rep L)) th =
     map_option (\<lambda>r. if id' r = i
                      then r\<lparr> is_revoked := True, revoked_at := Some now, replaced_by_id := rep \<rparr>
                      else r) (get_by_token_hash L th)"
  unfolding get_by_token_hash_def revoke_token_snd
  by (rule find_map_preserved) simp

lemma refresh_validate_valid:
  assumes "get_by_token_hash (db s) (H secret) = Some old"
    and "\<not> is_revoked old" and "now \<le> expires_at old"
    and "users (user_id old) = Some usr" and "u_is_active usr"
  shows "refresh_validate H now users secret s = Some (Inr (old, usr), s)"
proof -
  have v: "is_token_valid now (db s) (H secret)"
    using assms(1-3) by (simp add: is_token_valid_def)
  have l: "load_token_and_user users (H secret) s = Inr (old, usr)"
    using assms by (simp add: load_token_and_user_def)
  show ?thesis
    by (cases "get_cached_token now (redis s) (H secret)")
       (simp_all add: refresh_validate_def Let_def v l)
qed

text \<open>
  C4. A rotation that succeeds on a valid secret (the record exists, is not revoked and
  has not expired) of an active user leaves the old record revoked with
  \<open>replaced_by_id\<close> the id of the new record, and the new record, found under the hash
  of the returned secret, with \<open>parent_token_id\<close> the id of the old record.
\<close>

theorem rotation_round_trip:
  assumes ok: "ledger_ok (db s)"
    and old: "get_by_token_hash (db s) (H secret) = Some old"
    and live: "\<not> is_revoked old" "now \<le> expires_at old"
    and usr: "users (user_id old) = Some usr" "u_is_active usr"
    and success: "refresh_access_token H now new_id new_secret users secret dev_id dev_name ua ip s
                   = Some (Inr pair, s')"
  shows "\<exists>new. get_by_token_hash (db s') (H (refresh_token pair)) = Some new
           \<and> get (db s') (id' new) = Some new
           \<and> parent_token_id new = Some (id' old)
           \<and> \<not> is_revoked new
           \<and> get (db s') (id' old) =
               Some (old\<lparr> is_revoked := True, revoked_at := Some now,
                          replaced_by_id := Some (id' new) \<rparr>)"
proof -
  have v: "refresh_validate H now users secret s = Some (Inr (old, usr), s)"
    using old live usr by (rule refresh_validate_valid)
  with success have issue:
    "refresh_issue H now new_id new_secret old usr secret dev_id dev_name ua ip s = (Inr pair, s')"
    by (simp add: refresh_access_token_def)
  from refresh_issue_Inr [OF issue]
  obtain new where new: "id' new = new_id" "token_hash new = H new_secret" "\<not> is_revoked new"
    and fresh: "new_id \<notin> set (map id' (db s))" "H new_secret \<notin> set (map token_hash (db s))"
    and pair: "refresh_token pair = new_secret"
    and db': "db s' = snd (revoke_token now (id' old) (Some new_id)
                        (update_parent_token_id (db s @ [new]) new (id' old)))"
    by blast
  from old have mem: "old \<in> set (db s)" "token_hash old = H secret"
    unfolding get_by_token_hash_def by (auto dest: find_Some_mem)
  from mem fresh have neq: "id' old \<noteq> new_id" by auto
  have g_new: "get (db s @ [new]) new_id = Some new"
    unfolding get_def using fresh(1) new(1) by (rule find_append_fresh)
  have h_new: "get_by_token_hash (db s @ [new]) (H new_secret) = Some new"
    unfolding get_by_token_hash_def using fresh(2) new(2) by (rule find_append_fresh)
  from ok have "distinct (map id' (db s))" by (simp add: ledger_ok_def)
  then have "find (\<lambda>x. id' x = id' old) (db s) = Some old"
    using mem(1) by (rule find_unique)
  moreover have "find (\<lambda>r. id' r = id' old) (db s @ [new]) = find (\<lambda>r. id' r = id' old) (db s)"
    by (rule find_append_old) (use mem(1) in simp)
  ultimately have g_old: "get (db s @ [new]) (id' old) = Some old"
    by (simp add: get_def)
  have 1: "get_by_token_hash (db s') (H new_secret) = Some (new\<lparr> parent_token_id := Some (id' old) \<rparr>)"
    using neq new(1) by (simp add: db' revoke_token_get_by_hash update_parent_token_id_get_by_hash h_new)
  have 2: "get (db s') new_id = Some (new\<lparr> parent_token_id := Some (id' old) \<rparr>)"
    using neq new(1) by (simp add: db' revoke_token_get update_parent_token_id_get g_new)
  have 3: "get (db s') (id' old) =
             Some (old\<lparr> is_revoked := True, revoked_at := Some now, replaced_by_id := Some new_id \<rparr>)"
    using neq new(1) by (simp add: db' revoke_token_get update_parent_token_id_get g_old)
  from 1 2 3 new pair show ?thesis
    by (intro exI [of _ "new\<lparr> parent_token_id := Some (id' old) \<rparr>"]) simp
qed

theorem rotation_round_trip_witness:
  "ledger_ok (db state_T1)
   \<and> get_by_token_hash (db state_T1) (example_hash ''T1'')
       = Some ((example_token 101 ''#T1'' (10 + thirty_days)) \<lparr> parent_token_id := Some 100 \<rparr>)
   \<and> example_users 7 = Some example_user \<and> u_is_active example_user
   \<and> rotate_example 20 102 ''T2'' ''T1'' state_T1 = Some (Inr (bearer 20 ''T2''), state_T2)
   \<and> (\<exists>new. get_by_token_hash (db state_T2) (example_hash ''T2'') = Some new
         \<and> get (db state_T2) (id' new) = Some new
         \<and> parent_token_id new = Some 101
         \<and> \<not> is_revoked new
         \<and> get (db state_T2) 101 =
             Some ((example_token 101 ''#T1'' (10 + thirty_days))
                     \<lparr> parent_token_id := Some 100, is_revoked := True, revoked_at := Some 20,
                       replaced_by_id := Some (id' new) \<rparr>))"
proof -
  let ?old = "(example_token 101 ''#T1'' (10 + thirty_days)) \<lparr> parent_token_id := Some 100 \<rparr>"
  have ok: "ledger_ok (db state_T1)"
    by (simp add: state_T1_eq ledger_T1_def ledger_ok_def example_token_def)
  have old: "get_by_token_hash (db state_T1) (example_hash ''T1'') = Some ?old"
    by (simp add: state_T1_eq ledger_T1_def get_by_token_hash_def example_defs)
  have live: "\<not> is_revoked ?old" "20 \<le> expires_at ?old"
    by (simp_all add: example_defs)
  have usr: "example_users (user_id ?old) = Some example_user" "u_is_active example_user"
    by (simp_all add: example_defs)
  have run: "refresh_access_token example_hash 20 102 ''T2'' example_users ''T1'' None None None None
               state_T1 = Some (Inr (bearer 20 ''T2''), state_T2)"
    using rotate_T1 by (simp add: rotate_example_def state_T2_eq)
  from rotation_round_trip [OF ok old live usr run] ok old usr run show ?thesis
    by (simp add: rotate_example_def example_token_def bearer_def example_hash_def example_users_def)
qed





section \<open>Bulk logout\<close>

lemma except_case:
  "(case except of None \<Rightarrow> True | Some e \<Rightarrow> id' r \<noteq> e) \<longleftrightarrow> except \<noteq> Some (id' r)"
  by (cases except) auto

lemma revoke_all_user_tokens_eq:
  "revoke_all_user_tokens now uid except L =
     (length (filter (\<lambda>r. user_id r = uid \<and> \<not> is_revoked r \<and> except \<noteq> Some (id' r)) L),
      map (\<lambda>r. if user_id r = uid \<and> \<not> is_revoked r \<and> except \<noteq> Some (id' r)
                then mark_revoked now r else r) L)"
  by (simp add: revoke_all_user_tokens_def sql_update_def except_case mark_revoked_def)

text \<open>
  C7. \<open>revoke_all_user_tokens\<close> keeps every row in its place; a row is rewritten iff it
  belongs to the user, is not revoked and is not the spared one, and then it is the same
  row marked revoked at the current time; every other row is unchanged; the count returned
  is the number of rows rewritten. In the session \<open>T0\<close>, \<open>T1\<close>, \<open>T2\<close>, \<open>T3\<close> (a login and
  three rotations, all successful), logging out everywhere but \<open>T3\<close> leaves \<open>T0\<close>, \<open>T1\<close>,
  \<open>T2\<close> revoked and \<open>T3\<close> valid.
\<close>

theorem revoke_all_user_tokens_spares:
  "length (snd (revoke_all_user_tokens now uid except L)) = length L
   \<and> (\<forall>i<length L.
         snd (revoke_all_user_tokens now uid except L) ! i =
           (if user_id (L ! i) = uid \<and> \<not> is_revoked (L ! i) \<and> except \<noteq> Some (id' (L ! i))
            then (L ! i)\<lparr> is_revoked := True, revoked_at := Some now \<rparr>
            else L ! i))
   \<and> fst (revoke_all_user_tokens now uid except L) =
       length (filter (\<lambda>r. user_id r = uid \<and> \<not> is_revoked r \<and> except \<noteq> Some (id' r)) L)
   \<and> map_option fst (rotate_example 10 101 ''T1'' ''T0'' state_T0) = Some (Inr (bearer 10 ''T1''))
   \<and> map_option fst (rotate_example 20 102 ''T2'' ''T1'' state_T1) = Some (Inr (bearer 20 ''T2''))
   \<and> map_option fst (rotate_example 30 103 ''T3'' ''T2'' state_T2) = Some (Inr (bearer 30 ''T3''))
   \<and> map token_hash (db state_T3)
       = [example_hash ''T0'', example_hash ''T1'', example_hash ''T2'', example_hash ''T3'']
   \<and> map is_revoked (db (snd (logout_all_devices example_hash 40 7 (Some ''T3'') state_T3)))
       = [True, True, True, False]
   \<and> is_token_valid 40 (db (snd (logout_all_devices example_hash 40 7 (Some ''T3'') state_T3)))
        (example_hash ''T3'')"
proof (intro conjI)
  show "length (snd (revoke_all_user_tokens now uid except L)) = length L"
    by (simp add: revoke_all_user_tokens_eq)
  show "\<forall>i<length L.
         snd (revoke_all_user_tokens now uid except L) ! i =
           (if user_id (L ! i) = uid \<and> \<not> is_revoked (L ! i) \<and> except \<noteq> Some (id' (L ! i))
            then (L ! i)\<lparr> is_revoked := True, revoked_at := Some now \<rparr>
            else L ! i)"
    by (simp add: revoke_all_user_tokens_eq mark_revoked_def)
  show "fst (revoke_all_user_tokens now uid except L) =
       length (filter (\<lambda>r. user_id r = uid \<and> \<not> is_revoked r \<and> except \<noteq> Some (id' r)) L)"
    by (simp add: revoke_all_user_tokens_eq)
  show "map_option fst (rotate_example 10 101 ''T1'' ''T0'' state_T0) = Some (Inr (bearer 10 ''T1''))"
    by (simp add: rotate_T0)
  show "map_option fst (rotate_example 20 102 ''T2'' ''T1'' state_T1) = Some (Inr (bearer 20 ''T2''))"
    by (simp add: rotate_T1)
  show "map_option fst (rotate_example 30 103 ''T3'' ''T2'' state_T2) = Some (Inr (bearer 30 ''T3''))"
    by (simp add: rotate_T2)
  show "map token_hash (db state_T3)
       = [example_hash ''T0'', example_hash ''T1'', example_hash ''T2'', example_hash ''T3'']"
    by (simp add: state_T3_eq ledger_T3_def example_token_def example_hash_def)
  have out: "db (snd (logout_all_devices example_hash 40 7 (Some ''T3'') state_T3)) = ledger_T3"
    unfolding state_T3_eq
    by (simp add: ledger_T3_def logout_all_devices_def revoke_all_user_tokens_eq get_by_token_hash_def
          example_token_def example_hash_def Let_def case_prod_beta)
  show "map is_revoked (db (snd (logout_all_devices example_hash 40 7 (Some ''T3'') state_T3)))
       = [True, True, True, False]"
    unfolding out by (simp add: ledger_T3_def example_token_def)
  show "is_token_valid 40 (db (snd (logout_all_devices example_hash 40 7 (Some ''T3'') state_T3)))
        (example_hash ''T3'')"
    unfolding out
    by (simp add: ledger_T3_def is_token_valid_def get_by_token_hash_def example_defs)
qed

theorem revoke_all_user_tokens_spares_witness:
  "fst (revoke_all_user_tokens 40 7 (Some 101) ledger_T2) = 1
   \<and> snd (revoke_all_user_tokens 40 7 (Some 101) ledger_T2) ! 0 = ledger_T2 ! 0
   \<and> snd (revoke_all_user_tokens 40 7 (Some 101) ledger_T2) ! 1 = ledger_T2 ! 1
   \<and> snd (revoke_all_user_tokens 40 7 (Some 101) ledger_T2) ! 2
       = (ledger_T2 ! 2) \<lparr> is_revoked := True, revoked_at := Some 40 \<rparr>"
proof -
  have len: "length ledger_T2 = 3"
    by (simp add: ledger_T2_def)
  have rows: "\<forall>i<3. snd (revoke_all_user_tokens 40 7 (Some 101) ledger_T2) ! i =
           (if user_id (ledger_T2 ! i) = 7 \<and> \<not> is_revoked (ledger_T2 ! i)
               \<and> Some 101 \<noteq> Some (id' (ledger_T2 ! i))
            then (ledger_T2 ! i)\<lparr> is_revoked := True, revoked_at := Some 40 \<rparr>
            else ledger_T2 ! i)"
    and count: "fst (revoke_all_user_tokens 40 7 (Some 101) ledger_T2) =
       length (filter (\<lambda>r. user_id r = 7 \<and> \<not> is_revoked r \<and> Some 101 \<noteq> Some (id' r)) ledger_T2)"
    using revoke_all_user_tokens_spares [of 40 7 "Some 101" ledger_T2] unfolding len by blast+
  have 0: "snd (revoke_all_user_tokens 40 7 (Some 101) ledger_T2) ! 0 = ledger_T2 ! 0"
    using rows [rule_format, of 0] by (simp add: ledger_T2_def example_token_def)
  have 1: "snd (revoke_all_user_tokens 40 7 (Some 101) ledger_T2) ! 1 = ledger_T2 ! 1"
    using rows [rule_format, of 1] by (simp add: ledger_T2_def example_token_def)
  have 2: "snd (revoke_all_user_tokens 40 7 (Some 101) ledger_T2) ! 2
             = (ledger_T2 ! 2) \<lparr> is_revoked := True, revoked_at := Some 40 \<rparr>"
    using rows [rule_format, of 2] by (simp add: ledger_T2_def example_token_def)
  have n: "fst (revoke_all_user_tokens 40 7 (Some 101) ledger_T2) = 1"
    unfolding count by (simp add: ledger_T2_def example_token_def)
  from 0 1 2 n show ?thesis by simp
qed

section \<open>Revocation is monotone\<close>

lemma same_id_same_row:
  assumes "distinct (map id' L)" and "x \<in> set L" and "y \<in> set L" and "id' x = id' y"
  shows "x = y"
proof -
  from assms(1) have "inj_on id' (set L)" by (simp add: distinct_map)
  with assms(2-4) show ?thesis by (simp add: inj_on_eq_iff)
qed

lemma sql_update_row:
  assumes "r' \<in> set (snd (sql_update c f L))"
  shows "\<exists>x\<in>set L. r' = x \<or> r' = f x"
proof -
  from assms obtain x where "x \<in> set L" "r' = (if c x then f x else x)"
    by (auto simp: sql_update_def)
  then show ?thesis by (cases "c x") auto
qed

lemma sql_update_monotone:
  assumes d: "distinct (map id' L)"
    and r: "r \<in> set L" "is_revoked r"
    and r': "id' r' = id' r" "r' \<in> set (snd (sql_update c f L))"
    and f: "\<And>x. id' (f x) = id' x" "\<And>x. is_revoked x \<Longrightarrow> is_revoked (f x)"
  shows "is_revoked r'"
proof -
  from sql_update_row [OF r'(2)] obtain x where x: "x \<in> set L" "r' = x \<or> r' = f x" by blast
  with f(1) r'(1) have "id' x = id' r" by auto
  with d x(1) r(1) have "x = r" by (rule same_id_same_row)
  with x(2) r(2) f(2) show ?thesis by auto
qed

lemma sql_delete_monotone:
  assumes d: "distinct (map id' L)"
    and r: "r \<in> set L" "is_revoked r"
    and r': "r' \<in> set (snd (sql_delete c L))" "id' r' = id' r"
  shows "is_revoked r'"
proof -
  from r'(1) have "r' \<in> set L" by (simp add: sql_delete_def)
  with d have "r' = r" using r(1) r'(2) by (rule same_id_same_row)
  with r(2) show ?thesis by simp
qed

lemma create_token_monotone:
  assumes d: "distinct (map id' L)"
    and c: "create_token now new_id uid th dn dv ua ip delta parent L = Inr (t, L')"
    and r: "r \<in> set L" "is_revoked r"
    and r': "r' \<in> set L'" "id' r' = id' r"
  shows "is_revoked r'"
proof -
  from create_token_Inr [OF c]
  have fresh: "new_id \<notin> set (map id' L)" and t: "id' t = new_id" and L': "L' = L @ [t]"
    by simp_all
  from r(1) fresh have "id' r \<noteq> new_id" by auto
  with r'(2) t have "r' \<noteq> t" by auto
  with r'(1) L' have "r' \<in> set L" by simp
  with d have "r' = r" using r(1) r'(2) by (rule same_id_same_row)
  with r(2) show ?thesis by simp
qed

lemma revoke_token_chain_result:
  assumes "revoke_token_chain now i L = Some (n, L')"
  shows "L' = L \<or> (\<exists>ids. L' = snd (sql_update (\<lambda>r. id' r \<in> set ids)
                                      (\<lambda>r. r\<lparr> is_revoked := True, revoked_at := Some now \<rparr>) L))"
proof (cases "get L i")
  case None
  with assms show ?thesis by (simp add: revoke_token_chain_def)
next
  case (Some tok)
  show ?thesis
  proof (cases "walk_chain L tok []")
    case None
    with Some assms show ?thesis by (simp add: revoke_token_chain_def)
  next
    case (Some ids)
    show ?thesis
    proof (cases "ids = []")
      case True
      with Some \<open>get L i = Some tok\<close> assms show ?thesis by (simp add: revoke_token_chain_def)
    next
      case False
      with Some \<open>get L i = Some tok\<close> assms
      have "sql_update (\<lambda>r. id' r \<in> set ids)
              (\<lambda>r. r\<lparr> is_revoked := True, revoked_at := Some now \<rparr>) L = (n, L')"
        by (simp add: revoke_token_chain_def)
      then have "L' = snd (sql_update (\<lambda>r. id' r \<in> set ids)
                            (\<lambda>r. r\<lparr> is_revoked := True, revoked_at := Some now \<rparr>) L)"
        by simp
      then show ?thesis by blast
    qed
  qed
qed

text \<open>
  C9. Whatever the ledger operation (create, revoke, chain revoke, bulk revoke, device
  revoke, sweep, a read), a record that is revoked before it is, if a record with its id
  is still there afterwards, revoked afterwards. The ledger has the primary key's unique
  ids.
\<close>

theorem revocation_monotone:
  assumes d: "distinct (map id' L)"
    and step: "ledger_step now op L = Some L'"
    and r: "r \<in> set L" "is_revoked r"
    and r': "r' \<in> set L'" "id' r' = id' r"
  shows "is_revoked r'"
proof (cases op)
  case (OpCreate new_id uid th dn dv ua ip delta parent)
  show ?thesis
  proof (cases "create_token now new_id uid th dn dv ua ip delta parent L")
    case (Inl e)
    with step OpCreate have "L' = L" by simp
    with d r r' show ?thesis by (auto dest: same_id_same_row)
  next
    case (Inr p)
    obtain t M where p: "p = (t, M)" by (cases p)
    with Inr step OpCreate have "M = L'" by simp
    with Inr p d r r' show ?thesis by (auto intro: create_token_monotone)
  qed
next
  case (OpRevoke token_id replaced_by)
  with step have "L' = snd (sql_update (\<lambda>r. id' r = token_id)
      (\<lambda>r. r\<lparr> is_revoked := True, revoked_at := Some now, replaced_by_id := replaced_by \<rparr>) L)"
    by (auto simp: revoke_token_def case_prod_beta)
  with r'(1) have m: "r' \<in> set (snd (sql_update (\<lambda>r. id' r = token_id)
      (\<lambda>r. r\<lparr> is_revoked := True, revoked_at := Some now, replaced_by_id := replaced_by \<rparr>) L))"
    by simp
  show ?thesis by (rule sql_update_monotone [OF d r r'(2) m]) simp_all
next
  case (OpRevokeChain token_id)
  with step obtain n where "revoke_token_chain now token_id L = Some (n, L')" by auto
  then consider "L' = L"
    | ids where "L' = snd (sql_update (\<lambda>r. id' r \<in> set ids)
                            (\<lambda>r. r\<lparr> is_revoked := True, revoked_at := Some now \<rparr>) L)"
    using revoke_token_chain_result by blast
  then show ?thesis
  proof cases
    case 1
    with d r r' show ?thesis by (auto dest: same_id_same_row)
  next
    case 2
    with r'(1) have m: "r' \<in> set (snd (sql_update (\<lambda>r. id' r \<in> set ids)
                            (\<lambda>r. r\<lparr> is_revoked := True, revoked_at := Some now \<rparr>) L))"
      by simp
    show ?thesis by (rule sql_update_monotone [OF d r r'(2) m]) simp_all
  qed
next
  case (OpRevokeAll uid except)
  with step r'(1) have m: "r' \<in> set (snd (revoke_all_user_tokens now uid except L))" by auto
  show ?thesis
    by (rule sql_update_monotone [OF d r r'(2) m [unfolded revoke_all_user_tokens_def]]) simp_all
next
  case (OpRevokeDevice uid dev)
  with step r'(1) have m: "r' \<in> set (snd (revoke_device_tokens now uid dev L))" by auto
  show ?thesis
    by (rule sql_update_monotone [OF d r r'(2) m [unfolded revoke_device_tokens_def]]) simp_all
next
  case OpSweep
  with step have "L' = snd (sql_delete (\<lambda>r. expires_at r < now) L)"
    by (auto simp: cleanup_expired_tokens_def)
  with d r r' show ?thesis by (auto intro: sql_delete_monotone)
next
  case OpRead
  with step have "L' = L" by simp
  with d r r' show ?thesis by (auto dest: same_id_same_row)
qed

theorem revocation_monotone_witness:
  "distinct (map id' ledger_T1)
   \<and> ledger_step 40 (OpRevoke 100 None) ledger_T1
       = Some [(example_token 100 ''#T0'' thirty_days) \<lparr> is_revoked := True, revoked_at := Some 40 \<rparr>,
               ledger_T1 ! 1]
   \<and> ledger_T1 ! 0 \<in> set ledger_T1 \<and> is_revoked (ledger_T1 ! 0)
   \<and> id' ((example_token 100 ''#T0'' thirty_days) \<lparr> is_revoked := True, revoked_at := Some 40 \<rparr>)
       = id' (ledger_T1 ! 0)
   \<and> is_revoked ((example_token 100 ''#T0'' thirty_days) \<lparr> is_revoked := True, revoked_at := Some 40 \<rparr>)"
proof -
  let ?r' = "(example_token 100 ''#T0'' thirty_days) \<lparr> is_revoked := True, revoked_at := Some 40 \<rparr>"
  have d: "distinct (map id' ledger_T1)"
    by (simp add: ledger_T1_def example_token_def)
  have step: "ledger_step 40 (OpRevoke 100 None) ledger_T1 = Some [?r', ledger_T1 ! 1]"
    by (simp add: revoke_token_snd ledger_T1_def example_token_def)
  have r: "ledger_T1 ! 0 \<in> set ledger_T1" "is_revoked (ledger_T1 ! 0)"
    by (simp_all add: ledger_T1_def example_token_def)
  have r': "?r' \<in> set [?r', ledger_T1 ! 1]" "id' ?r' = id' (ledger_T1 ! 0)"
    by (simp_all add: ledger_T1_def example_token_def)
  from revocation_monotone [OF d step r r'] d step r r' show ?thesis by simp
qed

section \<open>Chain revocation\<close>

lemma get_SomeD: "get L k = Some r \<Longrightarrow> r \<in> set L \<and> id' r = k"
  unfolding get_def by (rule find_Some_mem)

lemma parent_edgeI:
  "get L c = Some r \<Longrightarrow> parent_token_id r = Some p \<Longrightarrow> get L p = Some q \<Longrightarrow> (p, c) \<in> parent_edge L"
  by (auto simp: parent_edge_def)

lemma parent_edgeD:
  "(p, c) \<in> parent_edge L \<Longrightarrow> \<exists>r q. get L c = Some r \<and> parent_token_id r = Some p \<and> get L p = Some q"
  by (simp add: parent_edge_def)

lemma parent_edge_ids: "parent_edge L \<subseteq> id' ` set L \<times> id' ` set L"
proof
  fix e assume e: "e \<in> parent_edge L"
  obtain p c where pc: "e = (p, c)" by (cases e)
  with e obtain r q where "get L c = Some r" "get L p = Some q"
    by (auto dest: parent_edgeD)
  then have "c \<in> id' ` set L" "p \<in> id' ` set L"
    by (auto dest!: get_SomeD)
  with pc show "e \<in> id' ` set L \<times> id' ` set L" by simp
qed

lemma wf_parent_edge: "acyclic (parent_edge L) \<Longrightarrow> wf (parent_edge L)"
proof -
  have "finite (id' ` set L \<times> id' ` set L)" by simp
  then have "finite (parent_edge L)"
    using parent_edge_ids by (rule rev_finite_subset)
  then show "acyclic (parent_edge L) \<Longrightarrow> wf (parent_edge L)"
    by (rule finite_acyclic_wf)
qed

lemma ancestors_stop:
  assumes "\<And>p. (p, c) \<notin> parent_edge L"
  shows "ancestors L c = {}"
proof -
  have "a \<notin> ancestors L c" for a
  proof
    assume "a \<in> ancestors L c"
    then have "(a, c) \<in> (parent_edge L)\<^sup>+" by (simp add: ancestors_def)
    then obtain b where "(b, c) \<in> parent_edge L" by (auto dest: tranclD2)
    with assms show False by simp
  qed
  then show ?thesis by blast
qed

lemma ancestors_step:
  assumes c: "get L c = Some cur" and p: "parent_token_id cur = Some p" and q: "get L p = Some q"
  shows "ancestors L c = insert p (ancestors L p)"
proof -
  have edge: "(p, c) \<in> parent_edge L"
    using c p q by (rule parent_edgeI)
  have only: "b = p" if "(b, c) \<in> parent_edge L" for b
    using that c p by (auto dest!: parent_edgeD)
  show ?thesis
  proof (rule set_eqI)
    fix a
    show "a \<in> ancestors L c \<longleftrightarrow> a \<in> insert p (ancestors L p)"
    proof
      assume "a \<in> ancestors L c"
      then have "(a, c) \<in> (parent_edge L)\<^sup>+" by (simp add: ancestors_def)
      then show "a \<in> insert p (ancestors L p)"
      proof (cases rule: tranclE)
        case base
        then show ?thesis using only by simp
      next
        case (step b)
        with only have "b = p" by simp
        with step show ?thesis by (simp add: ancestors_def)
      qed
    next
      assume "a \<in> insert p (ancestors L p)"
      then show "a \<in> ancestors L c"
        using edge by (auto simp: ancestors_def intro: trancl_into_trancl)
    qed
  qed
qed

lemma ancestors_unfold:
  "ancestors L c =
     (case get L c of
        None \<Rightarrow> {}
      | Some cur \<Rightarrow>
          (case parent_token_id cur of
             None \<Rightarrow> {}
           | Some p \<Rightarrow> (case get L p of None \<Rightarrow> {} | Some q \<Rightarrow> insert p (ancestors L p))))"
proof (cases "get L c")
  case None
  then have "ancestors L c = {}"
    by (intro ancestors_stop) (auto dest!: parent_edgeD)
  with None show ?thesis by simp
next
  case (Some cur)
  show ?thesis
  proof (cases "parent_token_id cur")
    case None
    with Some have "ancestors L c = {}"
      by (intro ancestors_stop) (auto dest!: parent_edgeD)
    with Some None show ?thesis by simp
  next
    case p: (Some p)
    show ?thesis
    proof (cases "get L p")
      case None
      with Some p have "ancestors L c = {}"
        by (intro ancestors_stop) (auto dest!: parent_edgeD)
      with Some p None show ?thesis by simp
    next
      case q: (Some q)
      with Some p show ?thesis by (simp add: ancestors_step)
    qed
  qed
qed

lemma not_own_ancestor: "acyclic (parent_edge L) \<Longrightarrow> c \<notin> ancestors L c"
  by (simp add: ancestors_def acyclic_def)

lemma ancestors_in_ledger: "ancestors L c \<subseteq> id' ` set L"
proof
  fix a assume "a \<in> ancestors L c"
  then have "(a, c) \<in> (parent_edge L)\<^sup>+" by (simp add: ancestors_def)
  then obtain b where "(a, b) \<in> parent_edge L" by (auto dest: tranclD)
  with parent_edge_ids show "a \<in> id' ` set L" by auto
qed

text \<open>The loop returns, and what it collects is the ancestors, each once.\<close>

lemma walk_chain_ancestors:
  assumes wf: "wf (parent_edge L)"
  shows "get L c = Some cur \<Longrightarrow>
         \<exists>xs. walk_chain L cur acc = Some (acc @ xs) \<and> set xs = ancestors L c \<and> distinct xs"
proof (induction c arbitrary: cur acc rule: wf_induct_rule [OF wf])
  case (1 c)
  note c = \<open>get L c = Some cur\<close>
  show ?case
  proof (cases "parent_token_id cur")
    case None
    with c have "walk_chain L cur acc = Some (acc @ [])" "ancestors L c = {}"
      by (simp_all add: walk_chain.simps ancestors_unfold [of L c])
    then show ?thesis by (intro exI [of _ "[]"]) simp
  next
    case p: (Some p)
    show ?thesis
    proof (cases "get L p")
      case None
      with c p have "walk_chain L cur acc = Some (acc @ [])" "ancestors L c = {}"
        by (simp_all add: walk_chain.simps ancestors_unfold [of L c])
      then show ?thesis by (intro exI [of _ "[]"]) simp
    next
      case q: (Some q)
      then have idq: "id' q = p" by (auto dest: get_SomeD)
      have edge: "(p, c) \<in> parent_edge L"
        using c p q by (rule parent_edgeI)
      from "1.IH" [OF edge q, of "acc @ [id' q]"] obtain xs where
        xs: "walk_chain L q (acc @ [id' q]) = Some ((acc @ [id' q]) @ xs)"
          "set xs = ancestors L p" "distinct xs"
        by blast
      from wf have "acyclic (parent_edge L)" by (rule wf_acyclic)
      then have "p \<notin> ancestors L p" by (rule not_own_ancestor)
      with xs idq have d: "distinct (p # xs)" by simp
      have w: "walk_chain L cur acc = Some (acc @ (p # xs))"
        using c p q xs(1) idq by (subst walk_chain.simps) simp
      have a: "set (p # xs) = ancestors L c"
        using xs(2) c p q by (simp add: ancestors_step)
      from w a d show ?thesis by blast
    qed
  qed
qed

lemma count_rows_by_id:
  assumes "distinct (map f L)"
  shows "length (filter (\<lambda>r. f r \<in> A) L) = card (A \<inter> f ` set L)"
proof -
  have "length (filter (\<lambda>r. f r \<in> A) L) = length (filter (\<lambda>x. x \<in> A) (map f L))"
    by (induction L) simp_all
  moreover have "distinct (filter (\<lambda>x. x \<in> A) (map f L))"
    using assms by (rule distinct_filter)
  then have "card (set (filter (\<lambda>x. x \<in> A) (map f L))) = length (filter (\<lambda>x. x \<in> A) (map f L))"
    by (rule distinct_card)
  moreover have "set (filter (\<lambda>x. x \<in> A) (map f L)) = A \<inter> f ` set L"
    by auto
  ultimately show ?thesis by simp
qed

text \<open>
  C5. On a ledger with unique ids and no cycle of parent links, \<open>revoke_token_chain\<close>
  returns for every starting id. The ancestors of the starting record are the records
  reached by following \<open>parent_token_id\<close> backward, up to the first record without a
  parent or whose parent is not found (the equation for \<open>ancestors\<close>, second conjunct);
  each of their rows is marked revoked at the current time and every other row is
  unchanged; the count returned is the number of ancestors. The starting record is not
  among them, and neither is any descendant of it.
\<close>

theorem revoke_token_chain_ancestors:
  assumes d: "distinct (map id' L)" and acyc: "acyclic (parent_edge L)"
  shows "revoke_token_chain now token_id L =
           Some (card (ancestors L token_id),
                 map (\<lambda>r. if id' r \<in> ancestors L token_id then mark_revoked now r else r) L)
         \<and> (\<forall>c. ancestors L c =
               (case get L c of
                  None \<Rightarrow> {}
                | Some cur \<Rightarrow>
                    (case parent_token_id cur of
                       None \<Rightarrow> {}
                     | Some p \<Rightarrow>
                         (case get L p of None \<Rightarrow> {} | Some q \<Rightarrow> insert p (ancestors L p)))))
         \<and> token_id \<notin> ancestors L token_id
         \<and> (\<forall>d. token_id \<in> ancestors L d \<longrightarrow> d \<notin> ancestors L token_id)"
proof (intro conjI allI impI)
  show "revoke_token_chain now token_id L =
           Some (card (ancestors L token_id),
                 map (\<lambda>r. if id' r \<in> ancestors L token_id then mark_revoked now r else r) L)"
  proof (cases "get L token_id")
    case None
    then have "ancestors L token_id = {}"
      by (simp add: ancestors_unfold [of L token_id])
    with None show ?thesis
      by (simp add: revoke_token_chain_def map_idI)
  next
    case (Some token)
    from wf_parent_edge [OF acyc] Some
    have "\<exists>xs. walk_chain L token [] = Some ([] @ xs) \<and> set xs = ancestors L token_id \<and> distinct xs"
      by (rule walk_chain_ancestors)
    then obtain xs where xs: "walk_chain L token [] = Some xs" "set xs = ancestors L token_id"
      by auto
    have n: "length (filter (\<lambda>r. id' r \<in> ancestors L token_id) L) = card (ancestors L token_id)"
      using count_rows_by_id [OF d, of "ancestors L token_id"] ancestors_in_ledger [of L token_id]
      by (simp add: Int_absorb2)
    show ?thesis
    proof (cases "xs = []")
      case True
      with xs(2) have "ancestors L token_id = {}" by simp
      with Some xs(1) True show ?thesis
        by (simp add: revoke_token_chain_def map_idI)
    next
      case False
      with Some xs n show ?thesis
        by (simp add: revoke_token_chain_def sql_update_def mark_revoked_def)
    qed
  qed
next
  fix c
  show "ancestors L c =
          (case get L c of
             None \<Rightarrow> {}
           | Some cur \<Rightarrow>
               (case parent_token_id cur of
                  None \<Rightarrow> {}
                | Some p \<Rightarrow>
                    (case get L p of None \<Rightarrow> {} | Some q \<Rightarrow> insert p (ancestors L p))))"
    by (rule ancestors_unfold)
next
  show "token_id \<notin> ancestors L token_id"
    using acyc by (rule not_own_ancestor)
next
  fix d
  assume "token_id \<in> ancestors L d"
  show "d \<notin> ancestors L token_id"
  proof
    assume "d \<in> ancestors L token_id"
    with \<open>token_id \<in> ancestors L d\<close> have "(token_id, token_id) \<in> (parent_edge L)\<^sup>+"
      by (auto simp: ancestors_def intro: trancl_trans)
    with acyc show False by (simp add: acyclic_def)
  qed
qed

lemma acyclic_parents_smaller:
  assumes "\<forall>r\<in>set L. \<forall>p. parent_token_id r = Some p \<longrightarrow> p < id' r"
  shows "acyclic (parent_edge L)"
proof -
  have "parent_edge L \<subseteq> {(p, c). p < c}"
  proof
    fix e assume e: "e \<in> parent_edge L"
    obtain p c where pc: "e = (p, c)" by (cases e)
    with e obtain r where "get L c = Some r" "parent_token_id r = Some p"
      by (auto dest: parent_edgeD)
    with assms have "p < c" by (auto dest!: get_SomeD)
    with pc show "e \<in> {(p, c). p < c}" by simp
  qed
  moreover have "wf {(p, c :: nat). p < c}"
    using wf_less by (simp add: less_than_def [symmetric] del: less_than_iff) 
  ultimately show ?thesis
    by (meson acyclic_subset wf_acyclic)
qed

theorem revoke_token_chain_ancestors_witness:
  "distinct (map id' ledger_T3) \<and> acyclic (parent_edge ledger_T3)
   \<and> revoke_token_chain 40 102 ledger_T3 =
       Some (2, [mark_revoked 40 (ledger_T3 ! 0), mark_revoked 40 (ledger_T3 ! 1),
                 ledger_T3 ! 2, ledger_T3 ! 3])
   \<and> card (ancestors ledger_T3 102) = 2
   \<and> 102 \<notin> ancestors ledger_T3 102 \<and> 103 \<notin> ancestors ledger_T3 102"
proof -
  have d: "distinct (map id' ledger_T3)"
    by (simp add: ledger_T3_def example_token_def)
  have a: "acyclic (parent_edge ledger_T3)"
    by (rule acyclic_parents_smaller) (simp add: ledger_T3_def example_token_def)
  have run: "revoke_token_chain 40 102 ledger_T3 =
       Some (2, [mark_revoked 40 (ledger_T3 ! 0), mark_revoked 40 (ledger_T3 ! 1),
                 ledger_T3 ! 2, ledger_T3 ! 3])"
    by (simp add: revoke_token_chain_def get_def walk_chain.simps sql_update_def mark_revoked_def
          ledger_T3_def example_token_def)
  have sub: "103 \<in> ancestors ledger_T3 103 \<or> 102 \<in> ancestors ledger_T3 103"
    by (subst ancestors_unfold) (simp add: get_def ledger_T3_def example_token_def)
  note t = revoke_token_chain_ancestors [OF d a, of 40 102]
  from conjunct1 [OF t] run have card: "card (ancestors ledger_T3 102) = 2" by simp
  from t have self: "102 \<notin> ancestors ledger_T3 102" by blast
  from a have "103 \<notin> ancestors ledger_T3 103" by (rule not_own_ancestor)
  with sub have "102 \<in> ancestors ledger_T3 103" by simp
  with t have desc: "103 \<notin> ancestors ledger_T3 102" by blast
  from d a run card self desc show ?thesis by simp
qed

end
